theory Spec2Isabelle
  imports Complex_Main
begin

section \<open>The GraphQL route over the subscription store\<close>

text \<open>
  The repository holds three revisions of the route module \<^verbatim>\<open>routes/graphql/index.ts\<close>:
  \<^item> \<^verbatim>\<open>src/unnamed/part_000\<close>: queries only; \<^verbatim>\<open>Query.user\<close> re-projects the join rows;
  \<^item> \<^verbatim>\<open>src/src/routes/graphql/index.ts\<close>: the same queries, plus create and delete mutations;
  \<^item> \<^verbatim>\<open>src/unnamed/part_001\<close>: resolvers on \<^verbatim>\<open>User.userSubscribedTo\<close> and
    \<^verbatim>\<open>User.subscribedToUser\<close>, all mutations, and a \<^verbatim>\<open>preHandler\<close> with \<^verbatim>\<open>depthLimit(5)\<close>.
  Every definition below takes the revision as its first argument where the three differ.
\<close>

datatype revision = Part000 | IndexTs | Part001

subsection \<open>JavaScript values and GraphQL documents\<close>

text \<open>
  What a resolver returns and what a response document holds. \<open>Undefined\<close> is what a
  missing property reads as. Numbers are kept apart as the two column kinds of the store.
\<close>

datatype jsval =
    Undefined
  | Null
  | Bool bool
  | Integer int
  | Float real
  | Str string
  | Arr "jsval list"
  | Obj "(string \<times> jsval) list"

text \<open>
  A field as the executor meets it: its name, its arguments (each a name and the text of
  its literal) and the fields of its selection set. Aliases, directives and variables are
  not modelled; the response key of a field is its name, and a selection set is taken to
  name each field once (see \<open>distinctNames\<close> below).
\<close>

datatype field = Field (f_name: string) (f_args: "(string \<times> string) list") (f_sels: "field list")

text \<open>
  A selection as \<^verbatim>\<open>parse\<close> of graphql-js builds it: a field node, or the spread of a
  named fragment. A document is one anonymous operation and defines no fragment (fragment
  definitions and inline fragments are not modelled), so the fragment a spread names is
  not defined.
\<close>

datatype selection =
    FieldNode string "(string \<times> string) list" "selection list"
  | FragmentSpreadNode string

datatype operation = QueryOp "selection list" | MutationOp "selection list"

text \<open>
  The \<^verbatim>\<open>query\<close> string of a request body, by what \<^verbatim>\<open>parse\<close> of graphql-js makes of it:
  a syntax error (which \<^verbatim>\<open>parse\<close> throws, with that message) or a document.
\<close>

datatype source = Malformed string | Parsed operation

datatype seg = Key string | Idx nat

type_synonym path = "seg list"

datatype gql_error = GqlError (message: string) (err_path: "path option")

record response =
  doc :: "jsval option"
  errors :: "gql_error list"

text \<open>What the transport layer sees of one request: a reply, or an exception.\<close>

datatype outcome = Reply response | Thrown string

subsection \<open>The storage collaborator\<close>

text \<open>
  Modelled from the spec: the Prisma schema and client are not among the sources. The
  spec names the entities (users, profiles, posts, membership tiers and the
  subscriber/author join relation); the columns are the scalar fields of the GraphQL
  object types and the foreign keys the resolvers filter on (\<^verbatim>\<open>subscriberId\<close>,
  \<^verbatim>\<open>authorId\<close>, \<^verbatim>\<open>userId\<close>, \<^verbatim>\<open>memberTypeId\<close>). A table is a list of rows, in the
  order \<^verbatim>\<open>findMany\<close> returns them.
\<close>

datatype member_type_row =
  MemberTypeRow (mt_id: string) (mt_discount: real) (mt_postsLimitPerMonth: int)

datatype post_row =
  PostRow (post_id: string) (post_title: string) (post_content: string) (post_authorId: string)

datatype profile_row =
  ProfileRow (profile_id: string) (profile_isMale: bool) (profile_yearOfBirth: int)
    (profile_userId: string) (profile_memberTypeId: string)

datatype user_row =
  UserRow (user_id: string) (user_name: string) (user_balance: real)

datatype subscription_row =
  SubscriptionRow (subscriberId: string) (authorId: string)

record db =
  memberTypes :: "member_type_row list"
  posts :: "post_row list"
  profiles :: "profile_row list"
  users :: "user_row list"
  subscribersOnAuthors :: "subscription_row list"

text \<open>A row as the object the client hands to the resolver: its scalar columns.\<close>

definition memberType_scalars :: "member_type_row \<Rightarrow> (string \<times> jsval) list" where
  "memberType_scalars m =
     [(''id'', Str (mt_id m)), (''discount'', Float (mt_discount m)),
      (''postsLimitPerMonth'', Integer (mt_postsLimitPerMonth m))]"

definition post_scalars :: "post_row \<Rightarrow> (string \<times> jsval) list" where
  "post_scalars p =
     [(''id'', Str (post_id p)), (''title'', Str (post_title p)),
      (''content'', Str (post_content p)), (''authorId'', Str (post_authorId p))]"

definition profile_scalars :: "profile_row \<Rightarrow> (string \<times> jsval) list" where
  "profile_scalars p =
     [(''id'', Str (profile_id p)), (''isMale'', Bool (profile_isMale p)),
      (''yearOfBirth'', Integer (profile_yearOfBirth p)), (''userId'', Str (profile_userId p)),
      (''memberTypeId'', Str (profile_memberTypeId p))]"

definition user_scalars :: "user_row \<Rightarrow> (string \<times> jsval) list" where
  "user_scalars u =
     [(''id'', Str (user_id u)), (''name'', Str (user_name u)),
      (''balance'', Float (user_balance u))]"

definition subscription_scalars :: "subscription_row \<Rightarrow> (string \<times> jsval) list" where
  "subscription_scalars s =
     [(''subscriberId'', Str (subscriberId s)), (''authorId'', Str (authorId s))]"

text \<open>A to-one relation reads as the related object, or null when there is none.\<close>

definition one_or_null :: "('a \<Rightarrow> jsval) \<Rightarrow> 'a option \<Rightarrow> jsval" where
  "one_or_null f r = (case r of None \<Rightarrow> Null | Some x \<Rightarrow> f x)"

text \<open>\<^verbatim>\<open>include: { profile: { include: { memberType: true } } }\<close> on a user.\<close>

definition include_memberType :: "db \<Rightarrow> profile_row \<Rightarrow> jsval" where
  "include_memberType d p =
     Obj (profile_scalars p @
       [(''memberType'',
         one_or_null (\<lambda>m. Obj (memberType_scalars m))
           (find (\<lambda>m. mt_id m = profile_memberTypeId p) (memberTypes d)))])"

definition include_profile :: "db \<Rightarrow> user_row \<Rightarrow> jsval" where
  "include_profile d u =
     one_or_null (include_memberType d) (find (\<lambda>p. profile_userId p = user_id u) (profiles d))"

text \<open>\<^verbatim>\<open>include: { posts: true }\<close> on a user.\<close>

definition include_posts :: "db \<Rightarrow> user_row \<Rightarrow> jsval" where
  "include_posts d u =
     Arr (map (\<lambda>p. Obj (post_scalars p)) (filter (\<lambda>p. post_authorId p = user_id u) (posts d)))"

text \<open>
  The two sides of the join relation on a user, as the resolvers use them:
  \<^verbatim>\<open>userSubscribedTo\<close> are the rows in which the user is the subscriber,
  \<^verbatim>\<open>subscribedToUser\<close> the rows in which the user is the author.
\<close>

definition rows_userSubscribedTo :: "db \<Rightarrow> string \<Rightarrow> subscription_row list" where
  "rows_userSubscribedTo d uid = filter (\<lambda>s. subscriberId s = uid) (subscribersOnAuthors d)"

definition rows_subscribedToUser :: "db \<Rightarrow> string \<Rightarrow> subscription_row list" where
  "rows_subscribedToUser d uid = filter (\<lambda>s. authorId s = uid) (subscribersOnAuthors d)"

definition user_by_id :: "db \<Rightarrow> string \<Rightarrow> user_row option" where
  "user_by_id d uid = find (\<lambda>u. user_id u = uid) (users d)"

text \<open>
  The include tree of \<^verbatim>\<open>Query.user\<close> in part_000 and index.ts:
  \<^verbatim>\<open>userSubscribedTo: { include: { author: { include: { subscribedToUser:
  { include: { subscriber: true } } } } } }\<close> and its mirror image.
\<close>

definition include_subscriber :: "db \<Rightarrow> subscription_row \<Rightarrow> jsval" where
  "include_subscriber d s =
     Obj (subscription_scalars s @
       [(''subscriber'', one_or_null (\<lambda>u. Obj (user_scalars u)) (user_by_id d (subscriberId s)))])"

definition include_author :: "db \<Rightarrow> subscription_row \<Rightarrow> jsval" where
  "include_author d s =
     Obj (subscription_scalars s @
       [(''author'', one_or_null (\<lambda>u. Obj (user_scalars u)) (user_by_id d (authorId s)))])"

definition include_author_subscribedToUser :: "db \<Rightarrow> subscription_row \<Rightarrow> jsval" where
  "include_author_subscribedToUser d s =
     Obj (subscription_scalars s @
       [(''author'',
         one_or_null
           (\<lambda>u. Obj (user_scalars u @
              [(''subscribedToUser'',
                Arr (map (include_subscriber d) (rows_subscribedToUser d (user_id u))))]))
           (user_by_id d (authorId s)))])"

definition include_subscriber_userSubscribedTo :: "db \<Rightarrow> subscription_row \<Rightarrow> jsval" where
  "include_subscriber_userSubscribedTo d s =
     Obj (subscription_scalars s @
       [(''subscriber'',
         one_or_null
           (\<lambda>u. Obj (user_scalars u @
              [(''userSubscribedTo'',
                Arr (map (include_author d) (rows_userSubscribedTo d (user_id u))))]))
           (user_by_id d (subscriberId s)))])"

text \<open>
  The calls the resolvers issue, one constructor per call site and argument shape.
  An id is optional because the GraphQL argument is nullable: the resolver passes
  \<^verbatim>\<open>undefined\<close> on when the query gives none.
\<close>

datatype call =
    MemberType_findMany
  | Post_findMany
  | User_findMany_include
  | Profile_findMany
  | MemberType_findUnique "string option"
  | Post_findUnique "string option"
  | User_findUnique_deep "string option"
  | User_findUnique_include "string option"
  | Profile_findUnique "string option"
  | User_findMany_subscribedToUser_some jsval
  | User_findMany_userSubscribedTo_some jsval
  | Post_delete "string option"
  | Profile_delete "string option"
  | SubscribersOnAuthors_delete "string option" "string option"

fun is_read :: "call \<Rightarrow> bool" where
  "is_read (Post_delete _) = False"
| "is_read (Profile_delete _) = False"
| "is_read (SubscribersOnAuthors_delete _ _) = False"
| "is_read _ = True"

text \<open>\<^verbatim>\<open>findUnique\<close>: the row with that id or null; the client rejects a missing id.\<close>

definition findUnique ::
  "('a \<Rightarrow> string) \<Rightarrow> ('a \<Rightarrow> jsval) \<Rightarrow> 'a list \<Rightarrow> string option \<Rightarrow> string + jsval" where
  "findUnique key obj rows i =
     (case i of
        None \<Rightarrow> Inl ''Argument `where` needs at least one argument''
      | Some k \<Rightarrow> Inr (one_or_null obj (find (\<lambda>r. key r = k) rows)))"

text \<open>The user object of \<^verbatim>\<open>users\<close>: profile with its member type, and posts.\<close>

definition user_include :: "db \<Rightarrow> user_row \<Rightarrow> (string \<times> jsval) list" where
  "user_include d u =
     user_scalars u @ [(''profile'', include_profile d u), (''posts'', include_posts d u)]"

definition user_deep :: "db \<Rightarrow> user_row \<Rightarrow> jsval" where
  "user_deep d u =
     Obj (user_include d u @
       [(''userSubscribedTo'',
         Arr (map (include_author_subscribedToUser d) (rows_userSubscribedTo d (user_id u)))),
        (''subscribedToUser'',
         Arr (map (include_subscriber_userSubscribedTo d) (rows_subscribedToUser d (user_id u))))])"

definition user_with_rows :: "db \<Rightarrow> user_row \<Rightarrow> jsval" where
  "user_with_rows d u =
     Obj (user_include d u @
       [(''userSubscribedTo'',
         Arr (map (\<lambda>s. Obj (subscription_scalars s)) (rows_userSubscribedTo d (user_id u)))),
        (''subscribedToUser'',
         Arr (map (\<lambda>s. Obj (subscription_scalars s)) (rows_subscribedToUser d (user_id u))))])"

text \<open>
  \<^verbatim>\<open>where: { subscribedToUser: { some: { subscriberId } } }\<close>: the users with a row, on
  their author side, whose subscriber is the given id; and the mirror image.
\<close>

definition where_subscribedToUser_some :: "db \<Rightarrow> string \<Rightarrow> user_row list" where
  "where_subscribedToUser_some d sid =
     filter (\<lambda>u. \<exists>s \<in> set (rows_subscribedToUser d (user_id u)). subscriberId s = sid) (users d)"

definition where_userSubscribedTo_some :: "db \<Rightarrow> string \<Rightarrow> user_row list" where
  "where_userSubscribedTo_some d aid =
     filter (\<lambda>u. \<exists>s \<in> set (rows_userSubscribedTo d (user_id u)). authorId s = aid) (users d)"

text \<open>
  One call against the store: its result (or the client's exception) and the store
  afterwards. The filter value of the two relation lookups is \<^verbatim>\<open>source.id\<close>; the client
  accepts a string there and rejects anything else.
\<close>

fun run_call :: "call \<Rightarrow> db \<Rightarrow> (string + jsval) \<times> db" where
  "run_call MemberType_findMany d =
     (Inr (Arr (map (\<lambda>m. Obj (memberType_scalars m)) (memberTypes d))), d)"
| "run_call Post_findMany d = (Inr (Arr (map (\<lambda>p. Obj (post_scalars p)) (posts d))), d)"
| "run_call User_findMany_include d = (Inr (Arr (map (\<lambda>u. Obj (user_include d u)) (users d))), d)"
| "run_call Profile_findMany d = (Inr (Arr (map (\<lambda>p. Obj (profile_scalars p)) (profiles d))), d)"
| "run_call (MemberType_findUnique i) d =
     (findUnique mt_id (\<lambda>m. Obj (memberType_scalars m)) (memberTypes d) i, d)"
| "run_call (Post_findUnique i) d = (findUnique post_id (\<lambda>p. Obj (post_scalars p)) (posts d) i, d)"
| "run_call (User_findUnique_deep i) d = (findUnique user_id (user_deep d) (users d) i, d)"
| "run_call (User_findUnique_include i) d = (findUnique user_id (user_with_rows d) (users d) i, d)"
| "run_call (Profile_findUnique i) d =
     (findUnique profile_id (\<lambda>p. Obj (profile_scalars p)) (profiles d) i, d)"
| "run_call (User_findMany_subscribedToUser_some v) d =
     (case v of
        Str sid \<Rightarrow> (Inr (Arr (map (\<lambda>u. Obj (user_scalars u)) (where_subscribedToUser_some d sid))), d)
      | _ \<Rightarrow> (Inl ''Invalid value for argument `subscriberId`'', d))"
| "run_call (User_findMany_userSubscribedTo_some v) d =
     (case v of
        Str aid \<Rightarrow> (Inr (Arr (map (\<lambda>u. Obj (user_scalars u)) (where_userSubscribedTo_some d aid))), d)
      | _ \<Rightarrow> (Inl ''Invalid value for argument `authorId`'', d))"
| "run_call (Post_delete i) d =
     (case i of
        None \<Rightarrow> (Inl ''Argument `where` needs at least one argument'', d)
      | Some k \<Rightarrow>
          (if k \<in> post_id ` set (posts d)
           then (Inr Null, d\<lparr>posts := filter (\<lambda>p. post_id p \<noteq> k) (posts d)\<rparr>)
           else (Inl ''Record to delete does not exist.'', d)))"
| "run_call (Profile_delete i) d =
     (case i of
        None \<Rightarrow> (Inl ''Argument `where` needs at least one argument'', d)
      | Some k \<Rightarrow>
          (if k \<in> profile_id ` set (profiles d)
           then (Inr Null, d\<lparr>profiles := filter (\<lambda>p. profile_id p \<noteq> k) (profiles d)\<rparr>)
           else (Inl ''Record to delete does not exist.'', d)))"
| "run_call (SubscribersOnAuthors_delete s a) d =
     (case (s, a) of
        (Some sid, Some aid) \<Rightarrow>
          (if SubscriptionRow sid aid \<in> set (subscribersOnAuthors d)
           then (Inr Null,
                 d\<lparr>subscribersOnAuthors :=
                     filter (\<lambda>r. r \<noteq> SubscriptionRow sid aid) (subscribersOnAuthors d)\<rparr>)
           else (Inl ''Record to delete does not exist.'', d))
      | _ \<Rightarrow> (Inl ''Argument `where` needs at least one argument'', d))"

subsection \<open>JavaScript in the resolvers\<close>

text \<open>
  Reading a property: of an object, the value or \<open>Undefined\<close>; of \<^verbatim>\<open>null\<close> or
  \<^verbatim>\<open>undefined\<close>, a TypeError; of anything else, \<open>Undefined\<close>.
\<close>

fun get :: "jsval \<Rightarrow> string \<Rightarrow> string + jsval" where
  "get (Obj kvs) k = Inr (case map_of kvs k of None \<Rightarrow> Undefined | Some v \<Rightarrow> v)"
| "get Null k = Inl (''Cannot read properties of null (reading '' @ k @ '')'')"
| "get Undefined k = Inl (''Cannot read properties of undefined (reading '' @ k @ '')'')"
| "get _ k = Inr Undefined"

definition and_then :: "string + 'a \<Rightarrow> ('a \<Rightarrow> string + 'b) \<Rightarrow> string + 'b" where
  "and_then r f = (case r of Inl e \<Rightarrow> Inl e | Inr x \<Rightarrow> f x)"

text \<open>\<^verbatim>\<open>xs.map(f)\<close>: the first exception of \<open>f\<close> ends the loop.\<close>

fun map_items :: "(jsval \<Rightarrow> string + jsval) \<Rightarrow> jsval list \<Rightarrow> string + jsval list" where
  "map_items f [] = Inr []"
| "map_items f (x # xs) =
     (case f x of
        Inl e \<Rightarrow> Inl e
      | Inr y \<Rightarrow> (case map_items f xs of Inl e \<Rightarrow> Inl e | Inr ys \<Rightarrow> Inr (y # ys)))"

fun array_map :: "(jsval \<Rightarrow> string + jsval) \<Rightarrow> jsval \<Rightarrow> string + jsval" where
  "array_map f (Arr xs) = (case map_items f xs of Inl e \<Rightarrow> Inl e | Inr ys \<Rightarrow> Inr (Arr ys))"
| "array_map f Null = Inl ''Cannot read properties of null (reading map)''"
| "array_map f Undefined = Inl ''Cannot read properties of undefined (reading map)''"
| "array_map f _ = Inl ''map is not a function''"

text \<open>An object literal that spreads \<open>kvs\<close> and then sets \<open>k\<close>.\<close>

fun assign :: "(string \<times> jsval) list \<Rightarrow> string \<Rightarrow> jsval \<Rightarrow> (string \<times> jsval) list" where
  "assign [] k v = [(k, v)]"
| "assign ((k', v') # kvs) k v = (if k' = k then (k, v) # kvs else (k', v') # assign kvs k v)"

definition truthy :: "jsval \<Rightarrow> bool" where
  "truthy v =
     (case v of
        Undefined \<Rightarrow> False | Null \<Rightarrow> False | Bool b \<Rightarrow> b | Integer i \<Rightarrow> i \<noteq> 0
      | Float x \<Rightarrow> x \<noteq> 0 | Str s \<Rightarrow> s \<noteq> [] | Arr _ \<Rightarrow> True | Obj _ \<Rightarrow> True)"

text \<open>
  \<^verbatim>\<open>entry?.userSubscribedTo.map((item) => ({ id: item.author.id,
  subscribedToUser: item.author.subscribedToUser.map((it) => ({ id: it.subscriber.id })) }))\<close>,
  with the names of the relation, of the user on the row and of the nested relation as
  arguments: the second projection of the source is the same with the names exchanged.
\<close>

definition reproject :: "string \<Rightarrow> string \<Rightarrow> string \<Rightarrow> string \<Rightarrow> jsval \<Rightarrow> string + jsval" where
  "reproject rel side nested side' entry =
     (if entry = Null \<or> entry = Undefined then Inr Undefined
      else
        and_then (get entry rel)
          (array_map (\<lambda>item.
             and_then (get item side) (\<lambda>a.
             and_then (get a ''id'') (\<lambda>i.
             and_then (get a nested) (\<lambda>ns.
             and_then
               (array_map (\<lambda>it.
                  and_then (get it side') (\<lambda>b.
                  and_then (get b ''id'') (\<lambda>j. Inr (Obj [(''id'', j)])))) ns)
               (\<lambda>ms. Inr (Obj [(''id'', i), (nested, ms)]))))))))"

definition spread :: "jsval \<Rightarrow> (string \<times> jsval) list" where
  "spread v = (case v of Obj kvs \<Rightarrow> kvs | _ \<Rightarrow> [])"

definition transformedEntry :: "jsval \<Rightarrow> string + jsval" where
  "transformedEntry entry =
     and_then (reproject ''userSubscribedTo'' ''author'' ''subscribedToUser'' ''subscriber'' entry)
       (\<lambda>us.
     and_then (reproject ''subscribedToUser'' ''subscriber'' ''userSubscribedTo'' ''author'' entry)
       (\<lambda>su.
     Inr (Obj (assign (assign (spread entry) ''userSubscribedTo'' us) ''subscribedToUser'' su))))"

subsection \<open>The schema\<close>

datatype gtype = Query | Mutation | MemberType | Post | User | Profile | SubscribersOnAuthors

text \<open>
  Every field of the schema is nullable. A field is a scalar (or enum) leaf, an object,
  or a list of objects. The meta fields of introspection (\<^verbatim>\<open>__typename\<close>, \<^verbatim>\<open>__schema\<close>,
  \<^verbatim>\<open>__type\<close>) are not modelled: no type of the model has a field of such a name.
\<close>

datatype ftype = Leaf | One gtype | Many gtype

text \<open>
  Of the Mutation root the model has the fields whose effect the resolver alone
  determines: \<^verbatim>\<open>deletePost\<close>, \<^verbatim>\<open>deleteProfile\<close> and \<^verbatim>\<open>unsubscribeFrom\<close>. The others
  need ids generated by the store or its referential actions, and are left out.
\<close>

fun executableSchema :: "revision \<Rightarrow> gtype \<Rightarrow> (string \<times> ftype) list" where
  "executableSchema rv Query =
     [(''memberTypes'', Many MemberType), (''posts'', Many Post), (''users'', Many User),
      (''profiles'', Many Profile), (''memberType'', One MemberType), (''post'', One Post),
      (''user'', One User), (''profile'', One Profile)]"
| "executableSchema rv Mutation =
     (case rv of
        Part000 \<Rightarrow> []
      | IndexTs \<Rightarrow> [(''deletePost'', Leaf), (''deleteProfile'', Leaf)]
      | Part001 \<Rightarrow> [(''deletePost'', Leaf), (''deleteProfile'', Leaf), (''unsubscribeFrom'', Leaf)])"
| "executableSchema rv MemberType =
     [(''id'', Leaf), (''discount'', Leaf), (''postsLimitPerMonth'', Leaf),
      (''profiles'', Many Profile)]"
| "executableSchema rv Post =
     [(''id'', Leaf), (''title'', Leaf), (''content'', Leaf), (''author'', One User)]"
| "executableSchema rv User =
     [(''id'', Leaf), (''name'', Leaf), (''balance'', Leaf), (''profile'', One Profile),
      (''posts'', Many Post),
      (''userSubscribedTo'', Many (if rv = Part001 then User else SubscribersOnAuthors)),
      (''subscribedToUser'', Many (if rv = Part001 then User else SubscribersOnAuthors))]"
| "executableSchema rv Profile =
     [(''id'', Leaf), (''isMale'', Leaf), (''yearOfBirth'', Leaf), (''user'', One User),
      (''memberType'', One MemberType)]"
| "executableSchema rv SubscribersOnAuthors =
     (if rv = Part001 then []
      else [(''id'', Leaf), (''subscriber'', One User), (''author'', One User),
            (''userSubscribedTo'', Many SubscribersOnAuthors),
            (''subscribedToUser'', Many SubscribersOnAuthors)])"

definition fieldType :: "revision \<Rightarrow> gtype \<Rightarrow> string \<Rightarrow> ftype option" where
  "fieldType rv ty n = map_of (executableSchema rv ty) n"

fun argNames :: "gtype \<Rightarrow> string \<Rightarrow> string list" where
  "argNames Query n =
     (if n \<in> {''memberType'', ''post'', ''user'', ''profile''} then [''id''] else [])"
| "argNames Mutation n =
     (if n \<in> {''deletePost'', ''deleteProfile''} then [''id'']
      else if n = ''unsubscribeFrom'' then [''userId'', ''authorId''] else [])"
| "argNames _ n = []"

subsection \<open>Resolvers\<close>

type_synonym fetch = "path \<times> call"

type_synonym 'a resolved = "'a \<times> gql_error list \<times> fetch list \<times> db"

text \<open>
  A call to the client from the resolver of the field at path \<open>p\<close>. The argument \<open>fails\<close>
  says for which fields the storage collaborator fails the call; a failed call has been
  issued too.
\<close>

definition prisma :: "(path \<Rightarrow> bool) \<Rightarrow> path \<Rightarrow> call \<Rightarrow> db \<Rightarrow> (string + jsval) \<times> fetch list \<times> db" where
  "prisma fails p c d =
     (if fails p then (Inl ''storage failure'', [(p, c)], d)
      else (fst (run_call c d), [(p, c)], snd (run_call c d)))"

definition defaultFieldResolver :: "jsval \<Rightarrow> string \<Rightarrow> jsval" where
  "defaultFieldResolver src n =
     (case src of
        Obj kvs \<Rightarrow> (case map_of kvs n of None \<Rightarrow> Undefined | Some v \<Rightarrow> v)
      | _ \<Rightarrow> Undefined)"

text \<open>\<^verbatim>\<open>Query.user\<close> of part_000 and index.ts.\<close>

definition Query_user_reshaped ::
  "(path \<Rightarrow> bool) \<Rightarrow> path \<Rightarrow> (string \<times> string) list \<Rightarrow> db \<Rightarrow> (string + jsval) \<times> fetch list \<times> db" where
  "Query_user_reshaped fails p args d =
     (case prisma fails p (User_findUnique_deep (map_of args ''id'')) d of
        (Inl e, l, d') \<Rightarrow> (Inl e, l, d')
      | (Inr entry, l, d') \<Rightarrow>
          (case transformedEntry entry of
             Inl e \<Rightarrow> (Inl e, l, d')
           | Inr t \<Rightarrow> (Inr (if truthy entry then t else entry), l, d')))"

definition resolve_Query ::
  "revision \<Rightarrow> string \<Rightarrow> (path \<Rightarrow> bool) \<Rightarrow> path \<Rightarrow> (string \<times> string) list \<Rightarrow> db
     \<Rightarrow> (string + jsval) \<times> fetch list \<times> db" where
  "resolve_Query rv n fails p args d =
     (if n = ''memberTypes'' then prisma fails p MemberType_findMany d
      else if n = ''posts'' then prisma fails p Post_findMany d
      else if n = ''users'' then prisma fails p User_findMany_include d
      else if n = ''profiles'' then prisma fails p Profile_findMany d
      else if n = ''memberType'' then prisma fails p (MemberType_findUnique (map_of args ''id'')) d
      else if n = ''post'' then prisma fails p (Post_findUnique (map_of args ''id'')) d
      else if n = ''user'' then
        (if rv = Part001 then prisma fails p (User_findUnique_include (map_of args ''id'')) d
         else Query_user_reshaped fails p args d)
      else if n = ''profile'' then prisma fails p (Profile_findUnique (map_of args ''id'')) d
      else (Inr Undefined, [], d))"

definition resolve_Mutation ::
  "string \<Rightarrow> (path \<Rightarrow> bool) \<Rightarrow> path \<Rightarrow> (string \<times> string) list \<Rightarrow> db
     \<Rightarrow> (string + jsval) \<times> fetch list \<times> db" where
  "resolve_Mutation n fails p args d =
     (if n = ''deletePost'' then prisma fails p (Post_delete (map_of args ''id'')) d
      else if n = ''deleteProfile'' then prisma fails p (Profile_delete (map_of args ''id'')) d
      else if n = ''unsubscribeFrom'' then
        prisma fails p
          (SubscribersOnAuthors_delete (map_of args ''userId'') (map_of args ''authorId'')) d
      else (Inr Undefined, [], d))"

text \<open>
  The field's resolver: the one the schema attaches, else the default one, which reads
  the property of the source and issues no call.
\<close>

definition resolve ::
  "revision \<Rightarrow> gtype \<Rightarrow> string \<Rightarrow> (path \<Rightarrow> bool) \<Rightarrow> path \<Rightarrow> jsval \<Rightarrow> (string \<times> string) list \<Rightarrow> db
     \<Rightarrow> (string + jsval) \<times> fetch list \<times> db" where
  "resolve rv ty n fails p src args d =
     (if ty = Query then resolve_Query rv n fails p args d
      else if ty = Mutation then resolve_Mutation n fails p args d
      else if ty = User \<and> rv = Part001 \<and> n = ''userSubscribedTo'' then
        prisma fails p (User_findMany_subscribedToUser_some (defaultFieldResolver src ''id'')) d
      else if ty = User \<and> rv = Part001 \<and> n = ''subscribedToUser'' then
        prisma fails p (User_findMany_userSubscribedTo_some (defaultFieldResolver src ''id'')) d
      else (Inr (defaultFieldResolver src n), [], d))"

subsection \<open>Execution\<close>

text \<open>
  A leaf: serialisation rejects an object or a list and passes a primitive on. The
  coercions of graphql-js between primitive kinds, and the membership tests of the UUID
  scalar and of the member type enum (declared in files that are not among the sources),
  are not modelled.
\<close>

definition completeLeafValue :: "jsval \<Rightarrow> string + jsval" where
  "completeLeafValue v =
     (case v of
        Obj _ \<Rightarrow> Inl ''cannot represent value''
      | Arr _ \<Rightarrow> Inl ''cannot represent value''
      | _ \<Rightarrow> Inr v)"

text \<open>
  The executor of graphql-js on this schema. Every field is nullable, so an exception of
  a resolver or of the completion of its value is caught at that field: the field is
  null and the error is recorded with the field's path. The store is threaded through
  the resolvers in the order of the selection set.
\<close>

function (sequential) executeFields ::
    "revision \<Rightarrow> (path \<Rightarrow> bool) \<Rightarrow> gtype \<Rightarrow> jsval \<Rightarrow> path \<Rightarrow> field list \<Rightarrow> db
       \<Rightarrow> (string \<times> jsval) list resolved"
  and executeField ::
    "revision \<Rightarrow> (path \<Rightarrow> bool) \<Rightarrow> gtype \<Rightarrow> jsval \<Rightarrow> path \<Rightarrow> field \<Rightarrow> db \<Rightarrow> jsval option resolved"
  and completeValue ::
    "revision \<Rightarrow> (path \<Rightarrow> bool) \<Rightarrow> ftype \<Rightarrow> field list \<Rightarrow> path \<Rightarrow> jsval \<Rightarrow> db
       \<Rightarrow> (string + jsval) resolved"
  and completeListValue ::
    "revision \<Rightarrow> (path \<Rightarrow> bool) \<Rightarrow> gtype \<Rightarrow> field list \<Rightarrow> path \<Rightarrow> nat \<Rightarrow> jsval list \<Rightarrow> db
       \<Rightarrow> jsval list resolved"
where
  "executeFields rv fails ty src p [] d = ([], [], [], d)"
| "executeFields rv fails ty src p (f # fs) d =
     (case executeField rv fails ty src p f d of
        (r, e1, l1, d1) \<Rightarrow>
          (case executeFields rv fails ty src p fs d1 of
             (rs, e2, l2, d2) \<Rightarrow>
               ((case r of None \<Rightarrow> rs | Some v \<Rightarrow> (f_name f, v) # rs), e1 @ e2, l1 @ l2, d2)))"
| "executeField rv fails ty src p f d =
     (case fieldType rv ty (f_name f) of
        None \<Rightarrow> (None, [], [], d)
      | Some ft \<Rightarrow>
          (case resolve rv ty (f_name f) fails (p @ [Key (f_name f)]) src (f_args f) d of
             (Inl m, l1, d1) \<Rightarrow>
               (Some Null, [GqlError m (Some (p @ [Key (f_name f)]))], l1, d1)
           | (Inr v, l1, d1) \<Rightarrow>
               (case completeValue rv fails ft (f_sels f) (p @ [Key (f_name f)]) v d1 of
                  (Inl m, e2, l2, d2) \<Rightarrow>
                    (Some Null, e2 @ [GqlError m (Some (p @ [Key (f_name f)]))], l1 @ l2, d2)
                | (Inr c, e2, l2, d2) \<Rightarrow> (Some c, e2, l1 @ l2, d2))))"
| "completeValue rv fails ft sels p v d =
     (if v = Null \<or> v = Undefined then (Inr Null, [], [], d)
      else
        (case ft of
           Leaf \<Rightarrow> (completeLeafValue v, [], [], d)
         | Many ty \<Rightarrow>
             (case v of
                Arr items \<Rightarrow>
                  (case completeListValue rv fails ty sels p 0 items d of
                     (cs, e, l, d') \<Rightarrow> (Inr (Arr cs), e, l, d'))
              | _ \<Rightarrow> (Inl ''Expected Iterable, but did not find one'', [], [], d))
         | One ty \<Rightarrow>
             (case executeFields rv fails ty v p sels d of
                (kvs, e, l, d') \<Rightarrow> (Inr (Obj kvs), e, l, d'))))"
| "completeListValue rv fails ty sels p i [] d = ([], [], [], d)"
| "completeListValue rv fails ty sels p i (x # xs) d =
     (case (if x = Null \<or> x = Undefined then (Null, [], [], d)
            else (case executeFields rv fails ty x (p @ [Idx i]) sels d of
                    (kvs, e, l, d') \<Rightarrow> (Obj kvs, e, l, d'))) of
        (c, e1, l1, d1) \<Rightarrow>
          (case completeListValue rv fails ty sels p (Suc i) xs d1 of
             (cs, e2, l2, d2) \<Rightarrow> (c # cs, e1 @ e2, l1 @ l2, d2)))"
  by pat_completeness auto

termination
  apply (relation "inv_image (less_than <*lex*> less_than <*lex*> less_than)
    (\<lambda>x. case x of
        Inl (Inl (rv, fails, ty, src, p, fs, d)) \<Rightarrow> (size_list size fs, 0::nat, 0::nat)
      | Inl (Inr (rv, fails, ty, src, p, f, d)) \<Rightarrow> (size f, 0, 0)
      | Inr (Inl (rv, fails, ft, sels, p, v, d)) \<Rightarrow> (size_list size sels, 2, 0)
      | Inr (Inr (rv, fails, ty, sels, p, i, xs, d)) \<Rightarrow> (size_list size sels, 1, length xs))")
  apply (simp_all add: wf_lex_prod)
  apply (case_tac f; simp)
  done

text \<open>
  \<^verbatim>\<open>collectFields\<close> of the executor: the fields of a selection set, in their order. The
  spread of a fragment that the document does not define contributes nothing. The
  selection sets are collected down the whole tree here, where graphql-js collects the
  selection set of a field when it completes the value of the field.
\<close>

fun collectField :: "selection \<Rightarrow> field list" where
  "collectField (FieldNode n args sels) = [Field n args (concat (map collectField sels))]"
| "collectField (FragmentSpreadNode x) = []"

definition collectFields :: "selection list \<Rightarrow> field list" where
  "collectFields sels = concat (map collectField sels)"

definition selections :: "operation \<Rightarrow> selection list" where
  "selections opn = (case opn of QueryOp sels \<Rightarrow> sels | MutationOp sels \<Rightarrow> sels)"

text \<open>
  \<^verbatim>\<open>execute\<close>: the root selection set against the root type of the operation. The
  schema of part_000 has no mutation type, and the executor says so in the error list.
\<close>

definition execute ::
  "revision \<Rightarrow> (path \<Rightarrow> bool) \<Rightarrow> operation \<Rightarrow> db \<Rightarrow> response \<times> fetch list \<times> db" where
  "execute rv fails opn d =
     (case opn of
        QueryOp sels \<Rightarrow>
          (case executeFields rv fails Query Undefined [] (collectFields sels) d of
             (kvs, e, l, d') \<Rightarrow> (\<lparr>doc = Some (Obj kvs), errors = e\<rparr>, l, d'))
      | MutationOp sels \<Rightarrow>
          (if rv = Part000 then
             (\<lparr>doc = Some Null,
               errors = [GqlError ''Schema is not configured to execute mutation operation.'' None]\<rparr>,
              [], d)
           else
             (case executeFields rv fails Mutation Undefined [] (collectFields sels) d of
                (kvs, e, l, d') \<Rightarrow> (\<lparr>doc = Some (Obj kvs), errors = e\<rparr>, l, d'))))"

text \<open>
  The model's reading of a selection set needs each response key once at every level
  (graphql-js would merge fields that share a key).
\<close>

fun distinctNames :: "field \<Rightarrow> bool" where
  "distinctNames (Field n args sels) =
     (distinct (map f_name sels) \<and> list_all distinctNames sels)"

definition distinctKeys :: "operation \<Rightarrow> bool" where
  "distinctKeys opn =
     (distinct (map f_name (collectFields (selections opn))) \<and>
      list_all distinctNames (collectFields (selections opn)))"

subsection \<open>Validation\<close>

text \<open>
  Modelled from the spec: the module \<^verbatim>\<open>member-types/schemas\<close>, which declares
  \<^verbatim>\<open>MemberTypeId\<close>, is not among the sources. The route names its two members,
  \<^verbatim>\<open>BASIC\<close> and \<^verbatim>\<open>BUSINESS\<close>, as the values of the enum type of the membership tiers;
  their values are taken to be these names in lower case.
\<close>

definition MemberTypeId_BASIC :: string where
  "MemberTypeId_BASIC = ''basic''"

definition MemberTypeId_BUSINESS :: string where
  "MemberTypeId_BUSINESS = ''business''"

definition MemberTypeIdEnum :: "string list" where
  "MemberTypeIdEnum = [MemberTypeId_BASIC, MemberTypeId_BUSINESS]"

text \<open>
  An argument of a field: its name must be one the field declares, and the \<^verbatim>\<open>id\<close> of
  \<^verbatim>\<open>memberType\<close>, of type \<^verbatim>\<open>MemberTypeIdEnum\<close>, must name a value of the enum. The other
  arguments are of the scalar \<^verbatim>\<open>UUIDType\<close>, whose test of a literal is declared in a
  file that is not among the sources and is not modelled.
\<close>

definition validateArgument :: "gtype \<Rightarrow> string \<Rightarrow> string \<times> string \<Rightarrow> string list" where
  "validateArgument ty n a =
     (if fst a \<notin> set (argNames ty n) then [''Unknown argument '' @ fst a @ '' on field '' @ n]
      else if ty = Query \<and> n = ''memberType'' \<and> fst a = ''id'' \<and> snd a \<notin> set MemberTypeIdEnum
      then [''Value '' @ snd a @ '' does not exist in MemberTypeId enum'']
      else [])"

text \<open>The names that occur more than once, in the order of their first occurrence.\<close>

fun duplicated :: "string list \<Rightarrow> string list" where
  "duplicated [] = []"
| "duplicated (x # xs) =
     (if x \<in> set xs then x # duplicated (filter (\<lambda>y. y \<noteq> x) xs) else duplicated xs)"

definition uniqueArgumentNames :: "(string \<times> string) list \<Rightarrow> string list" where
  "uniqueArgumentNames args =
     map (\<lambda>a. ''There can be only one argument named '' @ a) (duplicated (map fst args))"

text \<open>
  The rules of \<^verbatim>\<open>validate\<close> that bear on a query shape, in the order in which the
  visitor reports: at a field, that it exists on the type, that a leaf has no selection
  set and an object or list has one, and that no argument is given twice; then its
  arguments; then its selection set. A spread must name a defined fragment. Below a field
  that is unknown or a leaf the type is lost, and only the rules that need no type apply.
  With each field named once in a selection set, the rule on overlapping fields has
  nothing to report. The texts of the messages are abridged.
\<close>

fun untyped :: "selection \<Rightarrow> string list" where
  "untyped (FieldNode n args sels) = uniqueArgumentNames args @ concat (map untyped sels)"
| "untyped (FragmentSpreadNode x) = [''Unknown fragment '' @ x]"

fun validateSelection :: "revision \<Rightarrow> gtype \<Rightarrow> selection \<Rightarrow> string list" where
  "validateSelection rv ty (FieldNode n args sels) =
     (case fieldType rv ty n of
        None \<Rightarrow>
          (''Cannot query field '' @ n) # uniqueArgumentNames args @ concat (map untyped sels)
      | Some ft \<Rightarrow>
          (case ft of
             Leaf \<Rightarrow> (if sels = [] then [] else [''Field '' @ n @ '' must not have a selection''])
           | One ty' \<Rightarrow>
               (if sels = [] then [''Field '' @ n @ '' must have a selection of subfields'']
                else [])
           | Many ty' \<Rightarrow>
               (if sels = [] then [''Field '' @ n @ '' must have a selection of subfields'']
                else [])) @
          uniqueArgumentNames args @
          concat (map (validateArgument ty n) args) @
          (case ft of
             Leaf \<Rightarrow> concat (map untyped sels)
           | One ty' \<Rightarrow> concat (map (validateSelection rv ty') sels)
           | Many ty' \<Rightarrow> concat (map (validateSelection rv ty') sels)))"
| "validateSelection rv ty (FragmentSpreadNode x) = [''Unknown fragment '' @ x]"

definition specifiedRules :: "revision \<Rightarrow> operation \<Rightarrow> string list" where
  "specifiedRules rv opn =
     (case opn of
        QueryOp sels \<Rightarrow> concat (map (validateSelection rv Query) sels)
      | MutationOp sels \<Rightarrow>
          (if rv = Part000 then concat (map untyped sels)
           else concat (map (validateSelection rv Mutation) sels)))"

text \<open>
  \<^verbatim>\<open>validate\<close> collects what the rules report, up to a hundred errors: the report after
  the hundredth puts a last entry in the list and aborts the visit by throwing
  \<^verbatim>\<open>abortObj\<close>, a frozen empty object with no message. \<^verbatim>\<open>validate\<close> catches it around
  the visit of the document, which is where the specified rules report.
\<close>

definition abortObj :: string where
  "abortObj = []"

definition validate :: "revision \<Rightarrow> operation \<Rightarrow> string list" where
  "validate rv opn =
     (if length (specifiedRules rv opn) \<le> 100 then specifiedRules rv opn
      else take 100 (specifiedRules rv opn) @
        [''Too many validation errors, error limit reached. Validation aborted.''])"

subsection \<open>The depth limit\<close>

text \<open>
  The rule \<^verbatim>\<open>depthLimit(maxDepth)\<close> of the package graphql-depth-limit, which part_001
  hands to \<^verbatim>\<open>validate\<close> as the only rule. The rule does all its work when \<^verbatim>\<open>validate\<close>
  instantiates it, before the visit and outside the \<^verbatim>\<open>try\<close> around the visit: what it
  throws leaves \<^verbatim>\<open>validate\<close>.

  Its \<^verbatim>\<open>determineDepth\<close> walks the selections in their order with the number of enclosing
  fields. At a node that stands deeper than \<open>maxDepth\<close> it reports an error and does not
  descend. Otherwise it skips a field whose name starts with two underscores, and one
  without a selection set; and at a spread it goes to the fragment of that name, which is
  \<^verbatim>\<open>undefined\<close> here, and reading its \<^verbatim>\<open>kind\<close> throws a TypeError. The depth it computes
  goes to a callback, which part_001 does not give. The operation has no name, so the
  message starts with an empty pair of quotes.
\<close>

fun decimal :: "nat \<Rightarrow> string" where
  "decimal n =
     (if n < 10 then [''0123456789'' ! n]
      else decimal (n div 10) @ [''0123456789'' ! (n mod 10)])"

definition exceeds :: "nat \<Rightarrow> string" where
  "exceeds maxDepth =
     [CHR 0x27, CHR 0x27] @ '' exceeds maximum operation depth of '' @ decimal maxDepth"

definition reportError :: "string list \<Rightarrow> string \<Rightarrow> string + string list" where
  "reportError errs e = (if length errs \<ge> 100 then Inl abortObj else Inr (errs @ [e]))"

definition shouldIgnore :: "string \<Rightarrow> bool" where
  "shouldIgnore n = (take 2 n = ''__'')"

fun determineDepth :: "nat \<Rightarrow> nat \<Rightarrow> selection \<Rightarrow> string list \<Rightarrow> string + string list"
  and determineDepths :: "nat \<Rightarrow> nat \<Rightarrow> selection list \<Rightarrow> string list \<Rightarrow> string + string list"
where
  "determineDepth maxDepth depthSoFar (FieldNode n args sels) errs =
     (if depthSoFar > maxDepth then reportError errs (exceeds maxDepth)
      else if shouldIgnore n \<or> sels = [] then Inr errs
      else determineDepths maxDepth (Suc depthSoFar) sels errs)"
| "determineDepth maxDepth depthSoFar (FragmentSpreadNode x) errs =
     (if depthSoFar > maxDepth then reportError errs (exceeds maxDepth)
      else Inl (''Cannot read properties of undefined (reading '' @ [CHR 0x27] @ ''kind'' @
                [CHR 0x27] @ '')''))"
| "determineDepths maxDepth depthSoFar [] errs = Inr errs"
| "determineDepths maxDepth depthSoFar (s # ss) errs =
     (case determineDepth maxDepth depthSoFar s errs of
        Inl e \<Rightarrow> Inl e
      | Inr errs' \<Rightarrow> determineDepths maxDepth depthSoFar ss errs')"

text \<open>
  \<^verbatim>\<open>validate(executableSchema, document, [depthLimit(maxDepth)])\<close>: the errors the rule
  reported, or what it threw.
\<close>

definition depthLimit :: "nat \<Rightarrow> operation \<Rightarrow> string + string list" where
  "depthLimit maxDepth opn = determineDepths maxDepth 0 (selections opn) []"

text \<open>
  The depth of a query shape, as the spec defines it: the number of nested fields that
  carry a selection set, on the deepest path.
\<close>

fun depth :: "selection \<Rightarrow> nat" where
  "depth (FieldNode n args sels) = (if sels = [] then 0 else Suc (fold max (map depth sels) 0))"
| "depth (FragmentSpreadNode x) = 0"

definition queryDepth :: "operation \<Rightarrow> nat" where
  "queryDepth opn = fold max (map depth (selections opn)) 0"

subsection \<open>The route\<close>

text \<open>
  \<^verbatim>\<open>graphql\<close>: parse, validate, execute. Every failure is part of the result: a syntax
  error or validation errors come without a document.
\<close>

definition graphql ::
  "revision \<Rightarrow> (path \<Rightarrow> bool) \<Rightarrow> source \<Rightarrow> db \<Rightarrow> (string + response) \<times> fetch list \<times> db" where
  "graphql rv fails src d =
     (case src of
        Malformed m \<Rightarrow> (Inr \<lparr>doc = None, errors = [GqlError m None]\<rparr>, [], d)
      | Parsed opn \<Rightarrow>
          (case validate rv opn of
             [] \<Rightarrow> (case execute rv fails opn d of (r, l, d') \<Rightarrow> (Inr r, l, d'))
           | e # es \<Rightarrow> (Inr \<lparr>doc = None, errors = map (\<lambda>m. GqlError m None) (e # es)\<rparr>, [], d)))"

text \<open>The handler: the result of \<^verbatim>\<open>graphql\<close>, or the message of what it threw.\<close>

definition handler ::
  "revision \<Rightarrow> (path \<Rightarrow> bool) \<Rightarrow> source \<Rightarrow> db \<Rightarrow> outcome \<times> fetch list \<times> db" where
  "handler rv fails src d =
     (case graphql rv fails src d of
        (Inr result, l, d') \<Rightarrow> (Reply result, l, d')
      | (Inl m, l, d') \<Rightarrow> (Reply \<lparr>doc = None, errors = [GqlError m None]\<rparr>, l, d'))"

text \<open>
  The \<^verbatim>\<open>preHandler\<close> of part_001, which has no \<^verbatim>\<open>try\<close>: \<^verbatim>\<open>parse\<close> may throw, and so may
  \<^verbatim>\<open>validate\<close> with the depth rule; otherwise the depth errors, if any, are sent as the
  reply, which ends the request before the handler.
\<close>

definition preHandler :: "source \<Rightarrow> string + response option" where
  "preHandler src =
     (case src of
        Malformed m \<Rightarrow> Inl m
      | Parsed opn \<Rightarrow>
          (case depthLimit 5 opn of
             Inl e \<Rightarrow> Inl e
           | Inr errs \<Rightarrow>
               (if length errs > 0
                then Inr (Some \<lparr>doc = None, errors = map (\<lambda>m. GqlError m None) errs\<rparr>)
                else Inr None)))"

definition route ::
  "revision \<Rightarrow> (path \<Rightarrow> bool) \<Rightarrow> source \<Rightarrow> db \<Rightarrow> outcome \<times> fetch list \<times> db" where
  "route rv fails src d =
     (if rv = Part001 then
        (case preHandler src of
           Inl m \<Rightarrow> (Thrown m, [], d)
         | Inr (Some r) \<Rightarrow> (Reply r, [], d)
         | Inr None \<Rightarrow> handler rv fails src d)
      else handler rv fails src d)"

subsection \<open>What a request leaves behind\<close>

definition reply_of :: "outcome \<times> fetch list \<times> db \<Rightarrow> outcome" where
  "reply_of x = fst x"

definition fetches_of :: "outcome \<times> fetch list \<times> db \<Rightarrow> fetch list" where
  "fetches_of x = fst (snd x)"

definition store_after :: "outcome \<times> fetch list \<times> db \<Rightarrow> db" where
  "store_after x = snd (snd x)"

text \<open>The parts of what the executor returns.\<close>

definition value_of :: "'a resolved \<Rightarrow> 'a" where
  "value_of x = fst x"

definition errors_of :: "'a resolved \<Rightarrow> gql_error list" where
  "errors_of x = fst (snd x)"

definition log_of :: "'a resolved \<Rightarrow> fetch list" where
  "log_of x = fst (snd (snd x))"

definition store_of :: "'a resolved \<Rightarrow> db" where
  "store_of x = snd (snd (snd x))"

definition nothing_fails :: "path \<Rightarrow> bool" where
  "nothing_fails p = False"

text \<open>The storage collaborator fails the fetch issued for the field at \<open>p\<close>, and no other.\<close>

definition fails_at :: "path \<Rightarrow> path \<Rightarrow> bool" where
  "fails_at p q = (q = p)"

text \<open>
  Two runs of the executor, one below path \<open>p\<close> and one below \<open>p'\<close>, meet the same
  behaviour of the storage collaborator when it fails the same fetches below the two
  paths. Their results are then compared: the value and the store, and everything when
  the paths are the same.
\<close>

definition agree :: "(path \<Rightarrow> bool) \<Rightarrow> path \<Rightarrow> (path \<Rightarrow> bool) \<Rightarrow> path \<Rightarrow> bool" where
  "agree fails p fails' p' = (\<forall>q. q \<noteq> [] \<longrightarrow> fails (p @ q) = fails' (p' @ q))"

definition same_result :: "bool \<Rightarrow> 'a resolved \<Rightarrow> 'a resolved \<Rightarrow> bool" where
  "same_result eq x y = (fst x = fst y \<and> snd (snd (snd x)) = snd (snd (snd y)) \<and> (eq \<longrightarrow> x = y))"

text \<open>The ids of the table a single-entity root field looks into.\<close>

definition stored_ids :: "db \<Rightarrow> string \<Rightarrow> string set" where
  "stored_ids d n =
     (if n = ''memberType'' then mt_id ` set (memberTypes d)
      else if n = ''post'' then post_id ` set (posts d)
      else if n = ''user'' then user_id ` set (users d)
      else if n = ''profile'' then profile_id ` set (profiles d)
      else {})"

subsection \<open>Example data\<close>

text \<open>Users A, B and C; A is subscribed to B, B to C.\<close>

definition store_abc :: db where
  "store_abc =
     \<lparr>memberTypes = [], posts = [], profiles = [],
      users = [UserRow ''A'' ''Ann'' 0, UserRow ''B'' ''Bob'' 0, UserRow ''C'' ''Cy'' 0],
      subscribersOnAuthors = [SubscriptionRow ''A'' ''B'', SubscriptionRow ''B'' ''C'']\<rparr>"

text \<open>The same with a user D, who has no subscription in either direction.\<close>

definition store_abcd :: db where
  "store_abcd = store_abc\<lparr>users := users store_abc @ [UserRow ''D'' ''Di'' 0]\<rparr>"

text \<open>\<^verbatim>\<open>{ user(id: "A") { userSubscribedTo { id userSubscribedTo { id } } } }\<close>\<close>

definition query_two_levels :: "string \<Rightarrow> operation" where
  "query_two_levels a =
     QueryOp [FieldNode ''user'' [(''id'', a)]
       [FieldNode ''userSubscribedTo'' []
          [FieldNode ''id'' [] [], FieldNode ''userSubscribedTo'' [] [FieldNode ''id'' [] []]]]]"

text \<open>\<^verbatim>\<open>{ users { userSubscribedTo { id } } }\<close>\<close>

definition query_users_userSubscribedTo :: operation where
  "query_users_userSubscribedTo =
     QueryOp [FieldNode ''users'' [] [FieldNode ''userSubscribedTo'' [] [FieldNode ''id'' [] []]]]"

text \<open>\<^verbatim>\<open>{ user(id: "A") { userSubscribedTo { id } } }\<close>\<close>

definition query_user_userSubscribedTo :: "string \<Rightarrow> operation" where
  "query_user_userSubscribedTo a =
     QueryOp [FieldNode ''user'' [(''id'', a)] [FieldNode ''userSubscribedTo'' [] [FieldNode ''id'' [] []]]]"

text \<open>\<^verbatim>\<open>{ users { posts { author { posts { author { posts { id } } } } } } }\<close>, of depth 6.\<close>

definition query_depth_six :: operation where
  "query_depth_six =
     QueryOp [FieldNode ''users'' []
       [FieldNode ''posts'' []
          [FieldNode ''author'' []
             [FieldNode ''posts'' []
                [FieldNode ''author'' [] [FieldNode ''posts'' [] [FieldNode ''id'' [] []]]]]]]]"

text \<open>\<^verbatim>\<open>{ user(id: "Z") { id } }\<close> and its like for the other single-entity fields.\<close>

definition query_one :: "string \<Rightarrow> string \<Rightarrow> selection list \<Rightarrow> operation" where
  "query_one n i sels = QueryOp [FieldNode n [(''id'', i)] sels]"

text \<open>The lookups of a relation: the calls of the two resolvers on \<^verbatim>\<open>User\<close> in part_001.\<close>

fun is_relation_lookup :: "call \<Rightarrow> bool" where
  "is_relation_lookup (User_findMany_subscribedToUser_some _) = True"
| "is_relation_lookup (User_findMany_userSubscribedTo_some _) = True"
| "is_relation_lookup _ = False"

text \<open>\<^verbatim>\<open>{ user(id: "D") { userSubscribedTo { id } subscribedToUser { id } } }\<close>\<close>

definition query_user_relations :: "string \<Rightarrow> operation" where
  "query_user_relations i =
     QueryOp [FieldNode ''user'' [(''id'', i)]
       [FieldNode ''userSubscribedTo'' [] [FieldNode ''id'' [] []],
        FieldNode ''subscribedToUser'' [] [FieldNode ''id'' [] []]]]"

text \<open>\<^verbatim>\<open>{ users { ... } }\<close> and its like for the other root list fields.\<close>

definition query_list :: "string \<Rightarrow> selection list \<Rightarrow> operation" where
  "query_list n sels = QueryOp [FieldNode n [] sels]"

text \<open>The number of rows of the table a root list field returns.\<close>

definition table_size :: "db \<Rightarrow> string \<Rightarrow> nat" where
  "table_size d n =
     (if n = ''memberTypes'' then length (memberTypes d)
      else if n = ''posts'' then length (posts d)
      else if n = ''users'' then length (users d)
      else if n = ''profiles'' then length (profiles d)
      else 0)"

text \<open>
  The store of A, B and C with one membership tier, which no profile has, and one post,
  written by A.
\<close>

definition store_tier :: db where
  "store_tier =
     store_abc\<lparr>memberTypes := [MemberTypeRow ''basic'' 0 10],
               posts := [PostRow ''P'' ''Hello'' ''First post'' ''A'']\<rparr>"

text \<open>\<^verbatim>\<open>{ memberTypes { profiles { id } } }\<close>\<close>

definition query_memberTypes_profiles :: operation where
  "query_memberTypes_profiles =
     QueryOp [FieldNode ''memberTypes'' [] [FieldNode ''profiles'' [] [FieldNode ''id'' [] []]]]"


subsection \<open>What the depth rule counts\<close>

text \<open>
  A selection that the depth rule walks in full: it holds no spread, and no field whose
  name starts with two underscores.
\<close>

fun plain :: "selection \<Rightarrow> bool" where
  "plain (FieldNode n args sels) = (\<not> shouldIgnore n \<and> list_all plain sels)"
| "plain (FragmentSpreadNode x) = False"

text \<open>The number of selections that stand \<open>k\<close> levels below the head of a selection.\<close>

fun nodesAt :: "nat \<Rightarrow> selection \<Rightarrow> nat" where
  "nodesAt 0 s = 1"
| "nodesAt (Suc k) (FieldNode n args sels) = sum_list (map (nodesAt k) sels)"
| "nodesAt (Suc k) (FragmentSpreadNode x) = 0"

text \<open>
  The selections of an operation that stand just deeper than \<open>maxDepth\<close>: those with
  \<open>maxDepth + 1\<close> fields above them.
\<close>

definition tooDeep :: "nat \<Rightarrow> operation \<Rightarrow> nat" where
  "tooDeep maxDepth opn = sum_list (map (nodesAt (Suc maxDepth)) (selections opn))"

text \<open>
  The query of depth 6 with \<open>n\<close> selections of \<^verbatim>\<open>id\<close> at level 6:
  \<^verbatim>\<open>{ users { posts { author { posts { author { posts { id id ... } } } } } } }\<close>.
\<close>

definition query_wide :: "nat \<Rightarrow> operation" where
  "query_wide n =
     QueryOp [FieldNode ''users'' []
       [FieldNode ''posts'' []
          [FieldNode ''author'' []
             [FieldNode ''posts'' []
                [FieldNode ''author'' []
                   [FieldNode ''posts'' [] (replicate n (FieldNode ''id'' [] []))]]]]]]"

subsection \<open>The shape of a document\<close>

text \<open>
  A value mirrors a selection set when it has the same names and the same nesting: under
  an empty selection set it is a primitive or null; under a selection set with fields it
  is an object with exactly the selected names as keys, in their order, each value
  mirroring the nested selection set, or a list of values that mirror the selection set.
\<close>

fun mirrors :: "field list \<Rightarrow> jsval \<Rightarrow> bool"
  and mirrorsFields :: "field list \<Rightarrow> (string \<times> jsval) list \<Rightarrow> bool"
  and mirrorsItems :: "field list \<Rightarrow> jsval list \<Rightarrow> bool"
where
  "mirrors sels (Obj kvs) = (sels \<noteq> [] \<and> mirrorsFields sels kvs)"
| "mirrors sels (Arr xs) = (sels \<noteq> [] \<and> mirrorsItems sels xs)"
| "mirrors sels Undefined = False"
| "mirrors sels v = (sels = [])"
| "mirrorsFields [] [] = True"
| "mirrorsFields (f # fs) (kv # kvs) =
     (fst kv = f_name f \<and> mirrors (f_sels f) (snd kv) \<and> mirrorsFields fs kvs)"
| "mirrorsFields _ _ = False"
| "mirrorsItems sels [] = True"
| "mirrorsItems sels (x # xs) = (mirrors sels x \<and> mirrorsItems sels xs)"





text \<open>The document with null put at a path (unchanged where the path leads nowhere).\<close>

fun null_at :: "path \<Rightarrow> jsval \<Rightarrow> jsval"
  and null_at_key :: "string \<Rightarrow> path \<Rightarrow> (string \<times> jsval) list \<Rightarrow> (string \<times> jsval) list"
  and null_at_idx :: "nat \<Rightarrow> path \<Rightarrow> jsval list \<Rightarrow> jsval list"
where
  "null_at [] v = Null"
| "null_at (Key k # p) (Obj kvs) = Obj (null_at_key k p kvs)"
| "null_at (Idx i # p) (Arr xs) = Arr (null_at_idx i p xs)"
| "null_at (s # p) v = v"
| "null_at_key k p [] = []"
| "null_at_key k p (kv # kvs) =
     (if fst kv = k then (k, null_at p (snd kv)) # kvs else kv # null_at_key k p kvs)"
| "null_at_idx i p [] = []"
| "null_at_idx i p (x # xs) =
     (case i of 0 \<Rightarrow> null_at p x # xs | Suc j \<Rightarrow> x # null_at_idx j p xs)"

text \<open>A path lies under \<open>p\<close> when \<open>p\<close> is a prefix of it.\<close>

definition under :: "path \<Rightarrow> gql_error \<Rightarrow> bool" where
  "under p e = (case err_path e of None \<Rightarrow> False | Some q \<Rightarrow> take (length p) q = p)"

text \<open>
  A path starts below \<open>p\<close> with a segment in \<open>S\<close>. A result is confined to those paths
  when each of its errors and each of its fetches is at such a path.
\<close>

definition starts :: "path \<Rightarrow> (seg \<Rightarrow> bool) \<Rightarrow> path \<Rightarrow> bool" where
  "starts p S q = (\<exists>s r. q = p @ s # r \<and> S s)"

definition error_starts :: "path \<Rightarrow> (seg \<Rightarrow> bool) \<Rightarrow> gql_error \<Rightarrow> bool" where
  "error_starts p S e = (case err_path e of None \<Rightarrow> False | Some q \<Rightarrow> starts p S q)"

definition confined :: "path \<Rightarrow> (seg \<Rightarrow> bool) \<Rightarrow> gql_error list \<Rightarrow> fetch list \<Rightarrow> bool" where
  "confined p S es l =
     (list_all (error_starts p S) es \<and> list_all (\<lambda>f. starts p S (fst f)) l)"

text \<open>
  The error the executor records when the storage collaborator fails the fetch at \<open>x\<close>,
  and what that failure does to an error list: one entry at \<open>x\<close> replaces the entries
  under \<open>x\<close>, and the entries elsewhere stay, in their order.
\<close>

definition failure :: "path \<Rightarrow> gql_error" where
  "failure x = GqlError ''storage failure'' (Some x)"

definition settled :: "path \<Rightarrow> gql_error list \<Rightarrow> gql_error list \<Rightarrow> bool" where
  "settled x e0 e1 =
     (filter (under x) e1 = [failure x] \<and>
      filter (\<lambda>e. \<not> under x e) e1 = filter (\<lambda>e. \<not> under x e) e0)"

text \<open>
  The storage collaborator of \<open>fails\<close>, which in addition fails the fetch at \<open>x\<close>.
\<close>

definition also_fails :: "path \<Rightarrow> (path \<Rightarrow> bool) \<Rightarrow> path \<Rightarrow> bool" where
  "also_fails x fails q = (q = x \<or> fails q)"

text \<open>
  How the result \<open>X1\<close> of a run in which the fetch at \<open>x\<close> fails stands to the result
  \<open>X0\<close> of the run in which it does not: when the fetch at \<open>x\<close> was issued, the values
  are related by \<open>R\<close>, the error lists by \<open>settled\<close>, and the store is the same; when it
  was not, the results are equal.
\<close>

definition failed_at :: "path \<Rightarrow> 'a resolved \<Rightarrow> 'a resolved \<Rightarrow> ('a \<Rightarrow> 'a \<Rightarrow> bool) \<Rightarrow> bool" where
  "failed_at x X0 X1 R =
     (if x \<in> fst ` set (log_of X0)
      then R (value_of X0) (value_of X1) \<and> settled x (errors_of X0) (errors_of X1) \<and>
           store_of X1 = store_of X0
      else X1 = X0)"

subsection \<open>Queries only read\<close>

lemma run_call_read: "is_read c \<Longrightarrow> snd (run_call c d) = d"
  by (cases c) (auto split: jsval.splits)

lemma prisma_read:
  "is_read c \<Longrightarrow> prisma fails p c d = (r, l, d') \<Longrightarrow> d' = d \<and> l = [(p, c)]"
  by (auto simp: prisma_def run_call_read split: if_splits)

lemma Query_user_reshaped_frame:
  "Query_user_reshaped fails p args d = (r, l, d') \<Longrightarrow>
     d' = d \<and> l = [(p, User_findUnique_deep (map_of args ''id''))]"
  unfolding Query_user_reshaped_def
  by (auto split: prod.splits sum.splits dest!: prisma_read[rotated])

lemma resolve_Query_frame:
  "resolve_Query rv n fails p args d = (r, l, d') \<Longrightarrow> d' = d \<and> list_all (\<lambda>f. is_read (snd f)) l"
  unfolding resolve_Query_def
  by (auto split: if_splits dest!: prisma_read[rotated] Query_user_reshaped_frame)

lemma resolve_frame:
  "ty \<noteq> Mutation \<Longrightarrow> resolve rv ty n fails p src args d = (r, l, d') \<Longrightarrow>
     d' = d \<and> list_all (\<lambda>f. is_read (snd f)) l"
  unfolding resolve_def
  by (auto split: if_splits dest!: prisma_read[rotated] resolve_Query_frame)

lemma fieldType_not_Mutation:
  "fieldType rv ty n = Some ft \<Longrightarrow> ft \<noteq> One Mutation \<and> ft \<noteq> Many Mutation"
  by (cases ty; cases rv) (auto simp: fieldType_def split: if_splits)

lemma executor_frame:
  "ty \<noteq> Mutation \<Longrightarrow> executeFields rv fails ty src p fs d = (kvs, e, l, d') \<Longrightarrow>
     d' = d \<and> list_all (\<lambda>f. is_read (snd f)) l"
  "ty \<noteq> Mutation \<Longrightarrow> executeField rv fails ty src p f d = (r, e, l, d') \<Longrightarrow>
     d' = d \<and> list_all (\<lambda>f. is_read (snd f)) l"
  "ft \<noteq> One Mutation \<Longrightarrow> ft \<noteq> Many Mutation \<Longrightarrow>
     completeValue rv fails ft sels p v d = (c, e, l, d') \<Longrightarrow>
     d' = d \<and> list_all (\<lambda>f. is_read (snd f)) l"
  "ty \<noteq> Mutation \<Longrightarrow> completeListValue rv fails ty sels p i xs d = (cs, e, l, d') \<Longrightarrow>
     d' = d \<and> list_all (\<lambda>f. is_read (snd f)) l"
proof (induction rv fails ty src p fs d and rv fails ty src p f d and rv fails ft sels p v d
    and rv fails ty sels p i xs d
    arbitrary: kvs e l d' and r e l d' and c e l d' and cs e l d'
    rule: executeFields_executeField_completeValue_completeListValue.induct)
  case (1 rv fails ty src p d)
  then show ?case by simp
next
  case (2 rv fails ty src p f fs d)
  obtain r1 e1 l1 d1 where a: "executeField rv fails ty src p f d = (r1, e1, l1, d1)"
    by (metis prod_cases4)
  obtain rs e2 l2 d2 where b: "executeFields rv fails ty src p fs d1 = (rs, e2, l2, d2)"
    by (metis prod_cases4)
  from "2.IH"(1)[OF "2.prems"(1) a] have c: "d1 = d" "list_all (\<lambda>f. is_read (snd f)) l1" by auto
  from "2.IH"(2)[OF a[symmetric] refl refl "2.prems"(1) b]
  have "d2 = d1" "list_all (\<lambda>f. is_read (snd f)) l2" by auto
  with c "2.prems"(2) a b show ?case by auto
next
  case (3 rv fails ty src p f d)
  show ?case
  proof (cases "fieldType rv ty (f_name f)")
    case None
    with "3.prems" show ?thesis by simp
  next
    case (Some ft)
    obtain x l1 d1 where a:
      "resolve rv ty (f_name f) fails (p @ [Key (f_name f)]) src (f_args f) d = (x, l1, d1)"
      by (metis prod_cases3)
    from resolve_frame[OF "3.prems"(1) a] have c: "d1 = d" "list_all (\<lambda>f. is_read (snd f)) l1"
      by auto
    show ?thesis
    proof (cases x)
      case (Inl m)
      with Some a c "3.prems"(2) show ?thesis by auto
    next
      case (Inr v)
      obtain y e2 l2 d2 where b:
        "completeValue rv fails ft (f_sels f) (p @ [Key (f_name f)]) v d1 = (y, e2, l2, d2)"
        by (metis prod_cases4)
      from fieldType_not_Mutation[OF Some] have nm: "ft \<noteq> One Mutation" "ft \<noteq> Many Mutation"
        by auto
      from "3.IH"[OF Some a[symmetric] Inr refl nm b]
      have "d2 = d1" "list_all (\<lambda>f. is_read (snd f)) l2" by auto
      with Some a c Inr b "3.prems"(2) show ?thesis by (cases y) auto
    qed
  qed
next
  case (4 rv fails ft sels p v d)
  show ?case
  proof (cases "v = Null \<or> v = Undefined")
    case True
    with "4.prems" show ?thesis by auto
  next
    case nn: False
    show ?thesis
    proof (cases ft)
      case Leaf
      with nn "4.prems" show ?thesis by auto
    next
      case (One ty)
      obtain kvs e1 l1 d1 where a: "executeFields rv fails ty v p sels d = (kvs, e1, l1, d1)"
        by (metis prod_cases4)
      from One "4.prems" have "ty \<noteq> Mutation" by auto
      from "4.IH"(1)[OF nn One this a] One nn a "4.prems"(3) show ?thesis by auto
    next
      case (Many ty)
      show ?thesis
      proof (cases v)
        case (Arr items)
        obtain cs e1 l1 d1 where a:
          "completeListValue rv fails ty sels p 0 items d = (cs, e1, l1, d1)"
          by (metis prod_cases4)
        from Many "4.prems" have "ty \<noteq> Mutation" by auto
        from "4.IH"(2)[OF nn Many Arr this a] Many Arr nn a "4.prems"(3) show ?thesis by auto
      qed (use Many nn "4.prems" in auto)
    qed
  qed
next
  case (5 rv fails ty sels p i d)
  then show ?case by simp
next
  case (6 rv fails ty sels p i x xs d)
  obtain c e1 l1 d1 where a:
    "(if x = Null \<or> x = Undefined then (Null, [], [], d)
      else (case executeFields rv fails ty x (p @ [Idx i]) sels d of
              (kvs, e, l, d') \<Rightarrow> (Obj kvs, e, l, d'))) = (c, e1, l1, d1)"
    by (metis prod_cases4)
  have c: "d1 = d \<and> list_all (\<lambda>f. is_read (snd f)) l1"
  proof (cases "x = Null \<or> x = Undefined")
    case True
    with a show ?thesis by auto
  next
    case False
    obtain kvs e0 l0 d0 where b: "executeFields rv fails ty x (p @ [Idx i]) sels d = (kvs, e0, l0, d0)"
      by (metis prod_cases4)
    from "6.IH"(1)[OF False "6.prems"(1) b] a b False show ?thesis by auto
  qed
  obtain cs' e2 l2 d2 where b: "completeListValue rv fails ty sels p (Suc i) xs d1 = (cs', e2, l2, d2)"
    by (metis prod_cases4)
  from "6.IH"(2)[OF a[symmetric] refl refl "6.prems"(1) b]
  have "d2 = d1" "list_all (\<lambda>f. is_read (snd f)) l2" by auto
  with c a b "6.prems"(2) show ?case by auto
qed


lemma execute_query_frame:
  "execute rv fails (QueryOp sels) d = (r, l, d') \<Longrightarrow>
     d' = d \<and> list_all (\<lambda>f. is_read (snd f)) l"
  by (auto simp: execute_def split: prod.splits dest: executor_frame(1)[rotated])

lemma graphql_query_frame:
  "graphql rv fails (Parsed (QueryOp sels)) d = (r, l, d') \<Longrightarrow>
     d' = d \<and> list_all (\<lambda>f. is_read (snd f)) l"
  by (auto simp: graphql_def split: list.splits prod.splits dest: execute_query_frame)

lemma handler_query_frame:
  "handler rv fails (Parsed (QueryOp sels)) d = (r, l, d') \<Longrightarrow>
     d' = d \<and> list_all (\<lambda>f. is_read (snd f)) l"
  by (auto simp: handler_def split: prod.splits sum.splits dest: graphql_query_frame)

lemma route_query_frame:
  "route rv fails (Parsed (QueryOp sels)) d = (r, l, d') \<Longrightarrow>
     d' = d \<and> list_all (\<lambda>f. is_read (snd f)) l"
  by (auto simp: route_def split: if_splits sum.splits option.splits dest: handler_query_frame)

text \<open>The store is not read-only for the executor: a mutation changes it.\<close>

lemma unsubscribeFrom_changes_store:
  "store_after (route Part001 nothing_fails
       (Parsed (MutationOp [FieldNode ''unsubscribeFrom'' [(''userId'', ''A''), (''authorId'', ''B'')] []]))
       store_abc)
     = store_abc\<lparr>subscribersOnAuthors := [SubscriptionRow ''B'' ''C'']\<rparr>"
  by code_simp

text \<open>
  C10. Whatever the revision, the store and the outcome of each fetch, a request whose
  operation is a query leaves the store as it found it, and every call it issued to the
  storage collaborator is a \<^verbatim>\<open>findMany\<close> or a \<^verbatim>\<open>findUnique\<close>. The eight root fields of
  \<^verbatim>\<open>Query\<close> are the only ones a query operation can select.
\<close>

theorem query_leaves_store_unchanged:
  "store_after (route rv fails (Parsed (QueryOp sels)) d) = d \<and>
   list_all (\<lambda>f. is_read (snd f)) (fetches_of (route rv fails (Parsed (QueryOp sels)) d))"
proof -
  obtain r l d' where a: "route rv fails (Parsed (QueryOp sels)) d = (r, l, d')"
    by (metis prod_cases3)
  from route_query_frame[OF a] a show ?thesis
    by (simp add: store_after_def fetches_of_def)
qed

theorem query_leaves_store_unchanged_witness:
  "store_after (route Part001 nothing_fails (Parsed query_users_userSubscribedTo) store_abc) = store_abc \<and>
   list_all (\<lambda>f. is_read (snd f))
     (fetches_of (route Part001 nothing_fails (Parsed query_users_userSubscribedTo) store_abc)) \<and>
   length (fetches_of (route Part001 nothing_fails (Parsed query_users_userSubscribedTo) store_abc)) = 4"
proof -
  have "length (fetches_of (route Part001 nothing_fails (Parsed query_users_userSubscribedTo) store_abc)) = 4"
    by code_simp
  with query_leaves_store_unchanged[of Part001 nothing_fails
      "[FieldNode ''users'' [] [FieldNode ''userSubscribedTo'' [] [FieldNode ''id'' [] []]]]" store_abc]
  show ?thesis
    unfolding query_users_userSubscribedTo_def by simp
qed

text \<open>
  C9. Executing the same query twice, the second time against the store the first run
  left behind and with the storage collaborator behaving the same, gives the same reply:
  the same document and the same error list.
\<close>

theorem same_query_twice_same_reply:
  "reply_of (route rv fails (Parsed (QueryOp sels))
       (store_after (route rv fails (Parsed (QueryOp sels)) d)))
     = reply_of (route rv fails (Parsed (QueryOp sels)) d)"
proof -
  obtain r l d' where a: "route rv fails (Parsed (QueryOp sels)) d = (r, l, d')"
    by (metis prod_cases3)
  from route_query_frame[OF a] have "d' = d" by simp
  with a show ?thesis by (simp add: store_after_def)
qed

theorem same_query_twice_same_reply_witness:
  "reply_of (route IndexTs nothing_fails (Parsed (query_two_levels ''A''))
       (store_after (route IndexTs nothing_fails (Parsed (query_two_levels ''A'')) store_abc)))
     = reply_of (route IndexTs nothing_fails (Parsed (query_two_levels ''A'')) store_abc) \<and>
   reply_of (route IndexTs nothing_fails (Parsed (query_two_levels ''A'')) store_abc)
     = Reply \<lparr>doc = Some (Obj [(''user'', Obj [(''userSubscribedTo'',
          Arr [Obj [(''id'', Str ''B''), (''userSubscribedTo'', Null)]])])]), errors = []\<rparr>"
proof -
  have "reply_of (route IndexTs nothing_fails (Parsed (query_two_levels ''A'')) store_abc)
     = Reply \<lparr>doc = Some (Obj [(''user'', Obj [(''userSubscribedTo'',
          Arr [Obj [(''id'', Str ''B''), (''userSubscribedTo'', Null)]])])]), errors = []\<rparr>"
    by code_simp
  with same_query_twice_same_reply[of IndexTs nothing_fails _ store_abc]
  show ?thesis unfolding query_two_levels_def by simp
qed

subsection \<open>Validation\<close>

lemma validate_none: "validate rv opn = [] \<longleftrightarrow> specifiedRules rv opn = []"
  by (auto simp: validate_def)

lemma fieldType_not_ignored: "fieldType rv ty n = Some ft \<Longrightarrow> \<not> shouldIgnore n"
  by (cases ty; cases rv) (auto simp: fieldType_def shouldIgnore_def split: if_splits)

lemma validateSelection_plain: "validateSelection rv ty s = [] \<Longrightarrow> plain s"
proof (induction rv ty s rule: validateSelection.induct)
  case (1 rv ty n args sels)
  from "1.prems" obtain ft where ft: "fieldType rv ty n = Some ft"
    by (cases "fieldType rv ty n") auto
  have "list_all plain sels"
  proof (cases ft)
    case Leaf
    with "1.prems" ft show ?thesis by (cases "sels = []") auto
  next
    case (One t)
    with "1.prems" ft have "\<forall>s\<in>set sels. validateSelection rv t s = []" by auto
    with "1.IH"(1)[OF ft One] show ?thesis by (auto simp: list_all_iff)
  next
    case (Many t)
    with "1.prems" ft have "\<forall>s\<in>set sels. validateSelection rv t s = []" by auto
    with "1.IH"(2)[OF ft Many] show ?thesis by (auto simp: list_all_iff)
  qed
  with fieldType_not_ignored[OF ft] show ?case by simp
next
  case (2 rv ty x)
  then show ?case by simp
qed

lemma valid_query_plain:
  "validate rv (QueryOp sels) = [] \<Longrightarrow> list_all plain (selections (QueryOp sels))"
  by (auto simp: validate_none specifiedRules_def selections_def list_all_iff
      intro: validateSelection_plain)




text \<open>
  The argument of \<^verbatim>\<open>memberType\<close> must name a value of the enum, and a spread must name
  a fragment, which no document of the model defines: validation refuses the request.
\<close>

lemma enum_value_refused:
  "validate rv (query_one ''memberType'' ''basic'' [FieldNode ''id'' [] []]) = [] \<and>
   validate rv (query_one ''memberType'' ''gold'' [FieldNode ''id'' [] []])
     = [''Value gold does not exist in MemberTypeId enum'']"
  by (cases rv)
    (simp_all add: validate_def specifiedRules_def query_one_def fieldType_def
      validateArgument_def uniqueArgumentNames_def MemberTypeIdEnum_def MemberTypeId_BASIC_def
      MemberTypeId_BUSINESS_def)

lemma spread_refused: "FragmentSpreadNode x \<in> set sels \<Longrightarrow> validate rv (QueryOp sels) \<noteq> []"
proof -
  assume "FragmentSpreadNode x \<in> set sels"
  moreover have "validateSelection rv Query (FragmentSpreadNode x) \<noteq> []" by simp
  ultimately have "\<exists>s\<in>set sels. validateSelection rv Query s \<noteq> []" by blast
  then show ?thesis by (simp add: validate_none specifiedRules_def)
qed

subsection \<open>The depth guard\<close>

lemma fold_max_bound:
  "c + fold max xs a \<le> (m::nat) \<longleftrightarrow> c + a \<le> m \<and> (\<forall>x\<in>set xs. c + x \<le> m)"
  by (induction xs arbitrary: a) (auto simp: max_def)

lemma sum_list_pos: "0 < sum_list (xs::nat list) \<longleftrightarrow> (\<exists>x\<in>set xs. 0 < x)"
  by (induction xs) auto

lemma fold_max_reaches: "k \<le> fold max xs (0::nat) \<longleftrightarrow> k = 0 \<or> (\<exists>x\<in>set xs. k \<le> x)"
  using fold_max_bound[of 0 xs 0 "k - 1"] by (cases k) (auto simp: not_le Suc_le_eq not_less_eq_eq)

lemma nodesAt_depth: "0 < nodesAt k s \<longleftrightarrow> k \<le> depth s"
proof (induction k s rule: nodesAt.induct)
  case (1 s)
  then show ?case by simp
next
  case (2 k n args sels)
  have "0 < nodesAt (Suc k) (FieldNode n args sels) \<longleftrightarrow> (\<exists>s\<in>set sels. 0 < nodesAt k s)"
    by (simp add: sum_list_pos)
  also have "\<dots> \<longleftrightarrow> (\<exists>s\<in>set sels. k \<le> depth s)"
    using "2.IH" by blast
  also have "\<dots> \<longleftrightarrow> Suc k \<le> depth (FieldNode n args sels)"
  proof (cases "sels = []")
    case True
    then show ?thesis by simp
  next
    case False
    then obtain s where "s \<in> set sels" by (cases sels) auto
    with False show ?thesis using fold_max_reaches[of k "map depth sels"] by auto
  qed
  finally show ?case .
next
  case (3 k x)
  then show ?case by simp
qed

lemma tooDeep_queryDepth: "0 < tooDeep m opn \<longleftrightarrow> m < queryDepth opn"
  using fold_max_reaches[of "Suc m" "map depth (selections opn)"]
  by (auto simp: tooDeep_def queryDepth_def sum_list_pos nodesAt_depth Suc_le_eq)

lemma determineDepth_plain:
  "plain s \<longrightarrow> k \<le> Suc m \<longrightarrow> length errs \<le> 100 \<longrightarrow>
     determineDepth m k s errs =
       (if length errs + nodesAt (Suc m - k) s \<le> 100
        then Inr (errs @ replicate (nodesAt (Suc m - k) s) (exceeds m))
        else Inl abortObj)"
  "list_all plain ss \<longrightarrow> k \<le> Suc m \<longrightarrow> length errs \<le> 100 \<longrightarrow>
     determineDepths m k ss errs =
       (if length errs + sum_list (map (nodesAt (Suc m - k)) ss) \<le> 100
        then Inr (errs @ replicate (sum_list (map (nodesAt (Suc m - k)) ss)) (exceeds m))
        else Inl abortObj)"
proof (induction m k s errs and m k ss errs rule: determineDepth_determineDepths.induct)
  case (1 m k n args sels errs)
  show ?case
  proof (intro impI)
    assume p: "plain (FieldNode n args sels)" and k: "k \<le> Suc m" and l: "length errs \<le> 100"
    show "determineDepth m k (FieldNode n args sels) errs =
       (if length errs + nodesAt (Suc m - k) (FieldNode n args sels) \<le> 100
        then Inr (errs @ replicate (nodesAt (Suc m - k) (FieldNode n args sels)) (exceeds m))
        else Inl abortObj)"
    proof (cases "m < k")
      case True
      with k have "Suc m - k = 0" by simp
      with True show ?thesis by (auto simp: reportError_def)
    next
      case False
      then have s: "Suc m - k = Suc (m - k)" "Suc m - Suc k = m - k" by simp_all
      show ?thesis
      proof (cases "sels = []")
        case True
        with False s l show ?thesis by simp
      next
        case ne: False
        from p have ni: "\<not> shouldIgnore n" and ps: "list_all plain sels" by simp_all
        from False ni ne have c: "\<not> (shouldIgnore n \<or> sels = [])" by simp
        from "1.IH"[OF False c] ps False l s
        show ?thesis using False ni ne by simp
      qed
    qed
  qed
next
  case (2 m k x errs)
  then show ?case by simp
next
  case (3 m k errs)
  then show ?case by simp
next
  case (4 m k s ss errs)
  show ?case
  proof (intro impI)
    assume p: "list_all plain (s # ss)" and k: "k \<le> Suc m" and l: "length errs \<le> 100"
    let ?a = "nodesAt (Suc m - k) s"
    let ?b = "sum_list (map (nodesAt (Suc m - k)) ss)"
    from "4.IH"(1) p k l have a: "determineDepth m k s errs =
        (if length errs + ?a \<le> 100 then Inr (errs @ replicate ?a (exceeds m)) else Inl abortObj)"
      by simp
    show "determineDepths m k (s # ss) errs =
       (if length errs + sum_list (map (nodesAt (Suc m - k)) (s # ss)) \<le> 100
        then Inr (errs @ replicate (sum_list (map (nodesAt (Suc m - k)) (s # ss))) (exceeds m))
        else Inl abortObj)"
    proof (cases "length errs + ?a \<le> 100")
      case True
      with a have a': "determineDepth m k s errs = Inr (errs @ replicate ?a (exceeds m))" by simp
      from "4.IH"(2)[OF a'] p k True
      have "determineDepths m k ss (errs @ replicate ?a (exceeds m)) =
          (if length errs + ?a + ?b \<le> 100
           then Inr (errs @ replicate ?a (exceeds m) @ replicate ?b (exceeds m))
           else Inl abortObj)"
        by simp
      with a' show ?thesis by (simp add: replicate_add add.assoc)
    next
      case False
      with a show ?thesis by simp
    qed
  qed
qed

lemma depthLimit_plain:
  "list_all plain (selections opn) \<Longrightarrow>
     depthLimit m opn =
       (if tooDeep m opn \<le> 100 then Inr (replicate (tooDeep m opn) (exceeds m)) else Inl abortObj)"
  using determineDepth_plain(2)[of "selections opn" 0 m "[]"]
  by (simp add: depthLimit_def tooDeep_def)

lemma preHandler_plain:
  "list_all plain (selections opn) \<Longrightarrow>
     preHandler (Parsed opn) =
       (if tooDeep 5 opn = 0 then Inr None
        else if tooDeep 5 opn \<le> 100
        then Inr (Some \<lparr>doc = None, errors = replicate (tooDeep 5 opn) (GqlError (exceeds 5) None)\<rparr>)
        else Inl abortObj)"
  by (simp add: preHandler_def depthLimit_plain map_replicate)

lemma preHandler_accepts:
  "list_all plain (selections opn) \<Longrightarrow> queryDepth opn \<le> 5 \<Longrightarrow> preHandler (Parsed opn) = Inr None"
  using tooDeep_queryDepth[of 5 opn] by (simp add: preHandler_plain)

lemma route_valid_query:
  "validate rv (QueryOp sels) = [] \<Longrightarrow> queryDepth (QueryOp sels) \<le> 5 \<Longrightarrow>
     route rv fails (Parsed (QueryOp sels)) d = handler rv fails (Parsed (QueryOp sels)) d"
  using preHandler_accepts[OF valid_query_plain] by (simp add: route_def)




text \<open>
  What else leaves the \<^verbatim>\<open>preHandler\<close> of part_001: with 101 selections at level 6 the
  depth rule makes \<^verbatim>\<open>validate\<close> abort, and at the spread of an undefined fragment it
  throws a TypeError. A field whose name starts with two underscores hides what is below
  it from the rule: the request reaches the handler, whose validation knows no such field.
\<close>

lemma too_many_depth_errors_thrown:
  "route Part001 nothing_fails (Parsed (query_wide 100)) store_abc =
     (Reply \<lparr>doc = None, errors = replicate 100 (GqlError (exceeds 5) None)\<rparr>, [], store_abc) \<and>
   route Part001 nothing_fails (Parsed (query_wide 101)) store_abc = (Thrown abortObj, [], store_abc)"
proof -
  have p: "list_all plain (selections (query_wide n))" for n
    by (simp add: query_wide_def selections_def shouldIgnore_def list_all_iff)
  have t: "tooDeep 5 (query_wide n) = n" for n
    by (simp add: query_wide_def selections_def tooDeep_def sum_list_replicate
        numeral_eq_Suc)
  show ?thesis by (simp add: route_def preHandler_plain[OF p] t)
qed

lemma undefined_fragment_thrown:
  "route Part001 nothing_fails (Parsed (QueryOp [FragmentSpreadNode ''X''])) store_abc =
     (Thrown (''Cannot read properties of undefined (reading '' @ [CHR 0x27] @ ''kind'' @
              [CHR 0x27] @ '')''), [], store_abc) \<and>
   reply_of (route IndexTs nothing_fails (Parsed (QueryOp [FragmentSpreadNode ''X''])) store_abc) =
     Reply \<lparr>doc = None, errors = [GqlError ''Unknown fragment X'' None]\<rparr>"
  by code_simp

lemma ignored_field_hides_depth:
  "queryDepth (QueryOp [FieldNode ''__schema'' [] (selections query_depth_six)]) = 7 \<and>
   preHandler (Parsed (QueryOp [FieldNode ''__schema'' [] (selections query_depth_six)])) = Inr None"
  by code_simp

text \<open>
  C8 fails in part_001. The \<^verbatim>\<open>preHandler\<close> calls \<^verbatim>\<open>parse\<close> outside any \<^verbatim>\<open>try\<close>: for a
  query with a syntax error the exception leaves the route, where the handler of the
  same route and the other two revisions return it in the error list.
\<close>

theorem syntax_error_thrown_in_part_001:
  "reply_of (route Part001 nothing_fails (Malformed ''Syntax Error: Expected Name, found <EOF>.'')
       store_abc)
     = Thrown ''Syntax Error: Expected Name, found <EOF>.'' \<and>
   reply_of (route IndexTs nothing_fails (Malformed ''Syntax Error: Expected Name, found <EOF>.'')
       store_abc)
     = Reply \<lparr>doc = None,
         errors = [GqlError ''Syntax Error: Expected Name, found <EOF>.'' None]\<rparr>"
  by code_simp

lemma handler_replies: "\<exists>r. reply_of (handler rv fails src d) = Reply r"
  by (auto simp: handler_def reply_of_def split: prod.splits sum.splits)

lemma route_replies_without_preHandler:
  "rv \<noteq> Part001 \<Longrightarrow> \<exists>r. reply_of (route rv fails src d) = Reply r"
  using handler_replies[of rv fails src d] by (simp add: route_def)

subsection \<open>Two levels of subscriptions\<close>

text \<open>
  C4, as the code has it. In part_001, for users a, b and c with a subscribed to b and b
  to c, the query for the \<^verbatim>\<open>userSubscribedTo\<close> of a, two levels deep, returns
  \<^verbatim>\<open>[{id: b, userSubscribedTo: [{id: c}]}]\<close>. In part_000 and index.ts the inner
  \<^verbatim>\<open>userSubscribedTo\<close> is null.
\<close>

theorem two_levels_in_part_001:
  assumes "distinct [a, b, c]"
  shows "reply_of (route Part001 nothing_fails (Parsed (query_two_levels a))
            \<lparr>memberTypes = ms, posts = ps, profiles = prs,
             users = [UserRow a na ba, UserRow b nb bb, UserRow c nc bc],
             subscribersOnAuthors = [SubscriptionRow a b, SubscriptionRow b c]\<rparr>)
         = Reply \<lparr>doc = Some (Obj [(''user'', Obj [(''userSubscribedTo'',
              Arr [Obj [(''id'', Str b), (''userSubscribedTo'', Arr [Obj [(''id'', Str c)]])]])])]),
             errors = []\<rparr>"
proof -
  let ?D = "\<lparr>memberTypes = ms, posts = ps, profiles = prs,
             users = [UserRow a na ba, UserRow b nb bb, UserRow c nc bc],
             subscribersOnAuthors = [SubscriptionRow a b, SubscriptionRow b c]\<rparr>"
  have w1: "where_subscribedToUser_some ?D a = [UserRow b nb bb]"
    using assms by (auto simp: where_subscribedToUser_some_def rows_subscribedToUser_def)
  have w2: "where_subscribedToUser_some ?D b = [UserRow c nc bc]"
    using assms by (auto simp: where_subscribedToUser_some_def rows_subscribedToUser_def)
  have pre: "preHandler (Parsed (query_two_levels a)) = Inr None"
    by (simp add: preHandler_def depthLimit_def selections_def query_two_levels_def
        shouldIgnore_def)
  have val: "validate Part001 (query_two_levels a) = []"
    by (simp add: validate_def specifiedRules_def query_two_levels_def fieldType_def
        validateArgument_def uniqueArgumentNames_def)
  have ex: "execute Part001 nothing_fails (query_two_levels a) ?D =
      (\<lparr>doc = Some (Obj [(''user'', Obj [(''userSubscribedTo'',
              Arr [Obj [(''id'', Str b), (''userSubscribedTo'', Arr [Obj [(''id'', Str c)]])]])])]),
             errors = []\<rparr>,
       fst (snd (execute Part001 nothing_fails (query_two_levels a) ?D)), ?D)"
    by (simp add: collectFields_def fieldType_def execute_def resolve_def resolve_Query_def
        prisma_def findUnique_def one_or_null_def user_with_rows_def user_include_def
        user_scalars_def defaultFieldResolver_def completeLeafValue_def nothing_fails_def
        query_two_levels_def w1 w2)
  show ?thesis
    by (simp add: route_def pre handler_def graphql_def val reply_of_def) (subst ex, simp)
qed

theorem two_levels_in_part_001_witness:
  "distinct [''A'', ''B'', ''C''] \<and>
   reply_of (route Part001 nothing_fails (Parsed (query_two_levels ''A'')) store_abc)
     = Reply \<lparr>doc = Some (Obj [(''user'', Obj [(''userSubscribedTo'',
          Arr [Obj [(''id'', Str ''B''),
                    (''userSubscribedTo'', Arr [Obj [(''id'', Str ''C'')]])]])])]),
         errors = []\<rparr>"
  using two_levels_in_part_001[of "''A''" "''B''" "''C''" "[]" "[]" "[]" "''Ann''" 0 "''Bob''" 0 "''Cy''" 0]
  by (simp add: store_abc_def)

text \<open>
  C4 fails as stated: in index.ts and in part_000 the same query on the same data has
  null for the inner \<^verbatim>\<open>userSubscribedTo\<close>. \<^verbatim>\<open>Query.user\<close> there projects each
  subscription to \<^verbatim>\<open>{id, subscribedToUser}\<close>, and the default resolver finds no
  \<^verbatim>\<open>userSubscribedTo\<close> on it.
\<close>

theorem two_levels_null_in_index_ts:
  "reply_of (route IndexTs nothing_fails (Parsed (query_two_levels ''A'')) store_abc)
     = Reply \<lparr>doc = Some (Obj [(''user'', Obj [(''userSubscribedTo'',
          Arr [Obj [(''id'', Str ''B''), (''userSubscribedTo'', Null)]])])]), errors = []\<rparr> \<and>
   reply_of (route Part000 nothing_fails (Parsed (query_two_levels ''A'')) store_abc)
     = Reply \<lparr>doc = Some (Obj [(''user'', Obj [(''userSubscribedTo'',
          Arr [Obj [(''id'', Str ''B''), (''userSubscribedTo'', Null)]])])]), errors = []\<rparr>"
  by code_simp

subsection \<open>One fetch for each parent\<close>

lemma id_of_user_include [simp]:
  "defaultFieldResolver (Obj (user_include d u)) ''id'' = Str (user_id u)"
  by (simp add: defaultFieldResolver_def user_include_def user_scalars_def)

lemma id_of_user_with_rows [simp]:
  "defaultFieldResolver (user_with_rows d u) ''id'' = Str (user_id u)"
  by (simp add: defaultFieldResolver_def user_with_rows_def user_include_def user_scalars_def)

lemma id_of_user_scalars [simp]:
  "defaultFieldResolver (Obj (user_scalars u)) ''id'' = Str (user_id u)"
  by (simp add: defaultFieldResolver_def user_scalars_def)

text \<open>The selection \<^verbatim>\<open>{ id }\<close> on a user reads the object and fetches nothing.\<close>

lemma exec_id:
  "\<exists>r e. executeFields Part001 fails User src p [Field ''id'' [] []] d = (r, e, [], d)"
  by (simp add: fieldType_def resolve_def completeLeafValue_def split: jsval.splits)

lemma log_of_ids:
  "\<exists>r e. completeListValue Part001 fails User [Field ''id'' [] []] p i xs d = (r, e, [], d)"
proof (induction xs arbitrary: i)
  case Nil
  then show ?case by simp
next
  case (Cons x xs)
  from exec_id[of fails x "p @ [Idx i]" d] obtain r e where
    a: "executeFields Part001 fails User x (p @ [Idx i]) [Field ''id'' [] []] d = (r, e, [], d)"
    by blast
  from Cons[of "Suc i"] obtain r' e' where
    b: "completeListValue Part001 fails User [Field ''id'' [] []] p (Suc i) xs d = (r', e', [], d)"
    by blast
  show ?case using a b by simp
qed

lemma log_of_userSubscribedTo_ids:
  "\<exists>r e. executeFields Part001 fails User (Obj (user_include d u)) p
       [Field ''userSubscribedTo'' [] [Field ''id'' [] []]] d
     = (r, e, [(p @ [Key ''userSubscribedTo''],
               User_findMany_subscribedToUser_some (Str (user_id u)))], d)"
proof (cases "fails (p @ [Key ''userSubscribedTo''])")
  case True
  then show ?thesis by (simp add: fieldType_def resolve_def prisma_def)
next
  case False
  from log_of_ids[of fails "p @ [Key ''userSubscribedTo'']" 0
      "map (\<lambda>u. Obj (user_scalars u)) (where_subscribedToUser_some d (user_id u))" d]
  obtain r e where
    "completeListValue Part001 fails User [Field ''id'' [] []] (p @ [Key ''userSubscribedTo'']) 0
       (map (\<lambda>u. Obj (user_scalars u)) (where_subscribedToUser_some d (user_id u))) d
     = (r, e, [], d)"
    by blast
  with False show ?thesis by (simp add: fieldType_def resolve_def prisma_def)
qed

lemma log_of_users:
  "\<exists>r e. completeListValue Part001 fails User
       [Field ''userSubscribedTo'' [] [Field ''id'' [] []]]
       p i (map (\<lambda>u. Obj (user_include d u)) us) d
     = (r, e,
        map (\<lambda>(j, u). (p @ [Idx j, Key ''userSubscribedTo''],
                       User_findMany_subscribedToUser_some (Str (user_id u))))
          (enumerate i us), d)"
proof (induction us arbitrary: i)
  case Nil
  then show ?case by simp
next
  case (Cons u us)
  from log_of_userSubscribedTo_ids[of fails d u "p @ [Idx i]"] obtain r e where
    a: "executeFields Part001 fails User (Obj (user_include d u)) (p @ [Idx i])
          [Field ''userSubscribedTo'' [] [Field ''id'' [] []]] d
        = (r, e, [(p @ [Idx i] @ [Key ''userSubscribedTo''],
                  User_findMany_subscribedToUser_some (Str (user_id u)))], d)"
    by auto
  from Cons[of "Suc i"] obtain r' e' where
    b: "completeListValue Part001 fails User [Field ''userSubscribedTo'' [] [Field ''id'' [] []]]
          p (Suc i) (map (\<lambda>u. Obj (user_include d u)) us) d
        = (r', e',
           map (\<lambda>(j, u). (p @ [Idx j, Key ''userSubscribedTo''],
                          User_findMany_subscribedToUser_some (Str (user_id u))))
             (enumerate (Suc i) us), d)"
    by blast
  show ?case using a b by simp
qed

text \<open>
  In part_000 and index.ts the field has no resolver, and the users of the root query
  carry no such property: the field is null and nothing is fetched.
\<close>

lemma users_without_resolver:
  "rv \<noteq> Part001 \<Longrightarrow>
     completeListValue rv fails User [Field ''userSubscribedTo'' [] [Field ''id'' [] []]]
       p i (map (\<lambda>u. Obj (user_include d u)) us) d
     = (map (\<lambda>u. Obj [(''userSubscribedTo'', Null)]) us, [], [], d)"
proof (induction us arbitrary: i)
  case Nil
  then show ?case by simp
next
  case (Cons u us)
  have "defaultFieldResolver (Obj (user_include d u)) ''userSubscribedTo'' = Undefined"
    by (simp add: defaultFieldResolver_def user_include_def user_scalars_def)
  with Cons.prems Cons.IH[OF Cons.prems, of "Suc i"] show ?case
    by (simp add: fieldType_def resolve_def)
qed

lemma relation_lookups_only:
  "filter (\<lambda>f. is_relation_lookup (snd f))
     (map (\<lambda>(j, u). ([Key ''users'', Idx j, Key ''userSubscribedTo''],
                     User_findMany_subscribedToUser_some (Str (user_id u)))) xs)
   = map (\<lambda>(j, u). ([Key ''users'', Idx j, Key ''userSubscribedTo''],
                     User_findMany_subscribedToUser_some (Str (user_id u)))) xs"
  by (induction xs) auto

text \<open>
  C1, as the code has it. Take the query \<^verbatim>\<open>{ users { userSubscribedTo { id } } }\<close> on a store
  of N users, the fetch of the users not failing. part_001 issues, after the fetch of the
  users, one \<^verbatim>\<open>findMany\<close> for each user the root query returned, with that user's id: N
  lookups of the same kind for N users, whether or not the storage collaborator fails any
  of them. part_000 and index.ts issue the fetch of the users and no other: there the
  field has no resolver and is null for each user.
\<close>

theorem one_fetch_for_each_user:
  assumes "\<not> fails [Key ''users'']"
  shows "fetches_of (route rv fails (Parsed query_users_userSubscribedTo) d)
           = ([Key ''users''], User_findMany_include) #
             (if rv = Part001
              then map (\<lambda>(j, u). ([Key ''users'', Idx j, Key ''userSubscribedTo''],
                                   User_findMany_subscribedToUser_some (Str (user_id u))))
                     (enumerate 0 (users d))
              else []) \<and>
         length (filter (\<lambda>f. is_relation_lookup (snd f))
                   (fetches_of (route rv fails (Parsed query_users_userSubscribedTo) d)))
           = (if rv = Part001 then length (users d) else 0) \<and>
         (rv \<noteq> Part001 \<longrightarrow>
            reply_of (route rv fails (Parsed query_users_userSubscribedTo) d)
              = Reply \<lparr>doc = Some (Obj [(''users'',
                    Arr (map (\<lambda>u. Obj [(''userSubscribedTo'', Null)]) (users d)))]),
                  errors = []\<rparr>)"
proof -
  have pre: "preHandler (Parsed query_users_userSubscribedTo) = Inr None"
    by (simp add: preHandler_def depthLimit_def selections_def query_users_userSubscribedTo_def
        shouldIgnore_def)
  have val: "validate rv query_users_userSubscribedTo = []"
    by (cases rv)
      (simp_all add: validate_def specifiedRules_def query_users_userSubscribedTo_def
        fieldType_def uniqueArgumentNames_def)
  have "handler rv fails (Parsed query_users_userSubscribedTo) d
      = (case execute rv fails query_users_userSubscribedTo d of (r, l, d') \<Rightarrow> (Reply r, l, d'))"
    by (simp add: handler_def graphql_def val split: prod.splits)
  then have rt: "route rv fails (Parsed query_users_userSubscribedTo) d
      = (case execute rv fails query_users_userSubscribedTo d of (r, l, d') \<Rightarrow> (Reply r, l, d'))"
    by (auto simp: route_def pre)
  show ?thesis
  proof (cases "rv = Part001")
    case True
    from log_of_users[of fails "[Key ''users'']" 0 d "users d"] obtain r e where
      a: "completeListValue Part001 fails User [Field ''userSubscribedTo'' [] [Field ''id'' [] []]]
            [Key ''users''] 0 (map (\<lambda>u. Obj (user_include d u)) (users d)) d
          = (r, e,
             map (\<lambda>(j, u). ([Key ''users''] @ [Idx j, Key ''userSubscribedTo''],
                            User_findMany_subscribedToUser_some (Str (user_id u))))
               (enumerate 0 (users d)), d)"
      by blast
    have "\<exists>r. execute Part001 fails query_users_userSubscribedTo d
         = (r, ([Key ''users''], User_findMany_include) #
               map (\<lambda>(j, u). ([Key ''users'', Idx j, Key ''userSubscribedTo''],
                              User_findMany_subscribedToUser_some (Str (user_id u))))
                 (enumerate 0 (users d)), d)"
      using assms a
      by (simp add: query_users_userSubscribedTo_def collectFields_def
          fieldType_def execute_def resolve_def resolve_Query_def prisma_def)
    with rt True
    have "fetches_of (route rv fails (Parsed query_users_userSubscribedTo) d)
             = ([Key ''users''], User_findMany_include) #
               map (\<lambda>(j, u). ([Key ''users'', Idx j, Key ''userSubscribedTo''],
                              User_findMany_subscribedToUser_some (Str (user_id u))))
                 (enumerate 0 (users d))"
      by (auto simp: fetches_of_def)
    with True show ?thesis by (simp add: relation_lookups_only)
  next
    case False
    from assms False users_without_resolver[OF False, of fails "[Key ''users'']" 0 d "users d"]
    have "execute rv fails query_users_userSubscribedTo d
        = (\<lparr>doc = Some (Obj [(''users'',
                    Arr (map (\<lambda>u. Obj [(''userSubscribedTo'', Null)]) (users d)))]),
                  errors = []\<rparr>,
           [([Key ''users''], User_findMany_include)], d)"
      by (simp add: query_users_userSubscribedTo_def collectFields_def
          fieldType_def execute_def resolve_def resolve_Query_def prisma_def)
    with rt False show ?thesis by (simp add: fetches_of_def reply_of_def)
  qed
qed

theorem one_fetch_for_each_user_witness:
  "\<not> nothing_fails [Key ''users''] \<and>
   fetches_of (route Part001 nothing_fails (Parsed query_users_userSubscribedTo) store_abc)
     = [([Key ''users''], User_findMany_include),
        ([Key ''users'', Idx 0, Key ''userSubscribedTo''],
         User_findMany_subscribedToUser_some (Str ''A'')),
        ([Key ''users'', Idx 1, Key ''userSubscribedTo''],
         User_findMany_subscribedToUser_some (Str ''B'')),
        ([Key ''users'', Idx 2, Key ''userSubscribedTo''],
         User_findMany_subscribedToUser_some (Str ''C''))] \<and>
   fetches_of (route Part000 nothing_fails (Parsed query_users_userSubscribedTo) store_abc)
     = [([Key ''users''], User_findMany_include)] \<and>
   Part000 \<noteq> Part001 \<and>
   reply_of (route Part000 nothing_fails (Parsed query_users_userSubscribedTo) store_abc)
     = Reply \<lparr>doc = Some (Obj [(''users'',
           Arr [Obj [(''userSubscribedTo'', Null)], Obj [(''userSubscribedTo'', Null)],
                Obj [(''userSubscribedTo'', Null)]])]), errors = []\<rparr>"
  using one_fetch_for_each_user[of nothing_fails Part001 store_abc]
    one_fetch_for_each_user[of nothing_fails Part000 store_abc]
  by (simp add: nothing_fails_def store_abc_def enumerate_eq_zip upt_rec)

text \<open>
  C1 fails as stated: for the three users of the example, part_001 issues three lookups
  of the pair (User, \<^verbatim>\<open>subscribedToUser.some.subscriberId\<close>), not one. In index.ts and
  part_000 the relation field issues no fetch at all, and is null.
\<close>

theorem three_users_three_lookups:
  "length (filter (\<lambda>f. is_relation_lookup (snd f))
     (fetches_of (route Part001 nothing_fails (Parsed query_users_userSubscribedTo) store_abc))) = 3 \<and>
   route IndexTs nothing_fails (Parsed query_users_userSubscribedTo) store_abc
     = (Reply \<lparr>doc = Some (Obj [(''users'',
           Arr [Obj [(''userSubscribedTo'', Null)], Obj [(''userSubscribedTo'', Null)],
                Obj [(''userSubscribedTo'', Null)]])]), errors = []\<rparr>,
        [([Key ''users''], User_findMany_include)], store_abc) \<and>
   route Part000 nothing_fails (Parsed query_users_userSubscribedTo) store_abc
     = route IndexTs nothing_fails (Parsed query_users_userSubscribedTo) store_abc"
  by code_simp

subsection \<open>What the executor asks of the storage collaborator\<close>

text \<open>
  A resolver consults the collaborator's behaviour only at the path of its own field, and
  the path only names the fetch in the log.
\<close>

lemma prisma_agree:
  "fails pth = fails' pth' \<Longrightarrow>
     fst (prisma fails pth c d) = fst (prisma fails' pth' c d) \<and>
     snd (snd (prisma fails pth c d)) = snd (snd (prisma fails' pth' c d)) \<and>
     (pth = pth' \<longrightarrow> prisma fails pth c d = prisma fails' pth' c d)"
  by (cases "fails pth") (auto simp: prisma_def)

lemma Query_user_reshaped_agree:
  "fails pth = fails' pth' \<Longrightarrow>
     fst (Query_user_reshaped fails pth args d) = fst (Query_user_reshaped fails' pth' args d) \<and>
     snd (snd (Query_user_reshaped fails pth args d))
       = snd (snd (Query_user_reshaped fails' pth' args d)) \<and>
     (pth = pth' \<longrightarrow> Query_user_reshaped fails pth args d = Query_user_reshaped fails' pth' args d)"
  by (cases "fails pth") (auto simp: Query_user_reshaped_def prisma_def split: sum.splits)

lemma resolve_agree:
  "fails pth = fails' pth' \<Longrightarrow>
     fst (resolve rv ty n fails pth src args d) = fst (resolve rv ty n fails' pth' src args d) \<and>
     snd (snd (resolve rv ty n fails pth src args d))
       = snd (snd (resolve rv ty n fails' pth' src args d)) \<and>
     (pth = pth' \<longrightarrow>
        resolve rv ty n fails pth src args d = resolve rv ty n fails' pth' src args d)"
  using prisma_agree[of fails pth fails' pth'] Query_user_reshaped_agree[of fails pth fails' pth']
  by (simp add: resolve_def resolve_Query_def resolve_Mutation_def)

declare executeField.simps [simp del] completeValue.simps [simp del]

lemma agree_step: "agree fails p fails' p' \<Longrightarrow> agree fails (p @ [s]) fails' (p' @ [s])"
  unfolding agree_def by (metis append.assoc append_is_Nil_conv)

lemma agree_here: "agree fails p fails' p' \<Longrightarrow> fails (p @ [s]) = fails' (p' @ [s])"
  unfolding agree_def by blast

lemma same_resultD:
  "same_result eq (a, b, c, d) (a', b', c', d') \<Longrightarrow> a' = a \<and> d' = d \<and> (eq \<longrightarrow> b' = b \<and> c' = c)"
  by (auto simp: same_result_def)

lemma executor_agree:
  "\<forall>fails' p'. agree fails p fails' p' \<longrightarrow>
     same_result (p = p') (executeFields rv fails ty src p fs d)
       (executeFields rv fails' ty src p' fs d)"
  "\<forall>fails' p'. agree fails p fails' p' \<longrightarrow>
     same_result (p = p') (executeField rv fails ty src p f d)
       (executeField rv fails' ty src p' f d)"
  "\<forall>fails' p'. agree fails p fails' p' \<longrightarrow>
     same_result (p = p') (completeValue rv fails ft sels p v d)
       (completeValue rv fails' ft sels p' v d)"
  "\<forall>fails' p'. agree fails p fails' p' \<longrightarrow>
     same_result (p = p') (completeListValue rv fails ty sels p i xs d)
       (completeListValue rv fails' ty sels p' i xs d)"
proof (induction rv fails ty src p fs d and rv fails ty src p f d and rv fails ft sels p v d
    and rv fails ty sels p i xs d
    rule: executeFields_executeField_completeValue_completeListValue.induct)
  case (1 rv fails ty src p d)
  then show ?case by (simp add: same_result_def)
next
  case (2 rv fails ty src p f fs d)
  show ?case
  proof (intro allI impI)
    fix fails' p'
    assume ag: "agree fails p fails' p'"
    obtain r1 e1 l1 d1 where a: "executeField rv fails ty src p f d = (r1, e1, l1, d1)"
      by (metis prod_cases4)
    obtain r1' e1' l1' d1' where a': "executeField rv fails' ty src p' f d = (r1', e1', l1', d1')"
      by (metis prod_cases4)
    from "2.IH"(1)[rule_format, OF ag]
    have "same_result (p = p') (r1, e1, l1, d1) (r1', e1', l1', d1')" by (simp only: a a')
    then have s1: "r1' = r1" "d1' = d1" "p = p' \<longrightarrow> e1' = e1 \<and> l1' = l1"
      by (auto dest: same_resultD)
    obtain rs e2 l2 d2 where b: "executeFields rv fails ty src p fs d1 = (rs, e2, l2, d2)"
      by (metis prod_cases4)
    obtain rs' e2' l2' d2' where b': "executeFields rv fails' ty src p' fs d1 = (rs', e2', l2', d2')"
      by (metis prod_cases4)
    from "2.IH"(2)[OF a[symmetric] refl refl, rule_format, OF ag]
    have "same_result (p = p') (rs, e2, l2, d2) (rs', e2', l2', d2')" by (simp only: b b')
    then have s2: "rs' = rs" "d2' = d2" "p = p' \<longrightarrow> e2' = e2 \<and> l2' = l2"
      by (auto dest: same_resultD)
    show "same_result (p = p') (executeFields rv fails ty src p (f # fs) d)
            (executeFields rv fails' ty src p' (f # fs) d)"
      using a a' b b' s1 s2 by (simp add: same_result_def)
  qed
next
  case (3 rv fails ty src p f d)
  show ?case
  proof (intro allI impI)
    fix fails' p'
    assume ag: "agree fails p fails' p'"
    show "same_result (p = p') (executeField rv fails ty src p f d)
            (executeField rv fails' ty src p' f d)"
    proof (cases "fieldType rv ty (f_name f)")
      case None
      then show ?thesis by (simp add: same_result_def executeField.simps)
    next
      case (Some ft)
      let ?k = "Key (f_name f)"
      obtain x l1 d1 where a:
        "resolve rv ty (f_name f) fails (p @ [?k]) src (f_args f) d = (x, l1, d1)"
        by (metis prod_cases3)
      obtain x' l1' d1' where a':
        "resolve rv ty (f_name f) fails' (p' @ [?k]) src (f_args f) d = (x', l1', d1')"
        by (metis prod_cases3)
      from resolve_agree[of fails "p @ [?k]" fails' "p' @ [?k]" rv ty "f_name f" src "f_args f" d]
        agree_here[OF ag, of ?k] a a'
      have s1: "x' = x" "d1' = d1" "p = p' \<longrightarrow> l1' = l1" by auto
      show ?thesis
      proof (cases x)
        case (Inl m)
        with Some a a' s1 show ?thesis by (simp add: same_result_def executeField.simps)
      next
        case (Inr v)
        obtain y e2 l2 d2 where b:
          "completeValue rv fails ft (f_sels f) (p @ [?k]) v d1 = (y, e2, l2, d2)"
          by (metis prod_cases4)
        obtain y' e2' l2' d2' where b':
          "completeValue rv fails' ft (f_sels f) (p' @ [?k]) v d1 = (y', e2', l2', d2')"
          by (metis prod_cases4)
        from "3.IH"[OF Some a[symmetric] Inr refl, rule_format, OF agree_step[OF ag, of ?k]]
        have "same_result (p @ [?k] = p' @ [?k]) (y, e2, l2, d2) (y', e2', l2', d2')"
          by (simp only: b b')
        then have s2: "y' = y" "d2' = d2" "p = p' \<longrightarrow> e2' = e2 \<and> l2' = l2"
          by (auto dest: same_resultD)
        from Some a a' s1 Inr b b' s2 show ?thesis
          by (cases y) (simp_all add: same_result_def executeField.simps)
      qed
    qed
  qed
next
  case (4 rv fails ft sels p v d)
  show ?case
  proof (intro allI impI)
    fix fails' p'
    assume ag: "agree fails p fails' p'"
    show "same_result (p = p') (completeValue rv fails ft sels p v d)
            (completeValue rv fails' ft sels p' v d)"
    proof (cases "v = Null \<or> v = Undefined")
      case True
      then show ?thesis by (auto simp: same_result_def completeValue.simps)
    next
      case nn: False
      show ?thesis
      proof (cases ft)
        case Leaf
        with nn show ?thesis by (simp add: same_result_def completeValue.simps)
      next
        case (One ty)
        obtain kvs e1 l1 d1 where a: "executeFields rv fails ty v p sels d = (kvs, e1, l1, d1)"
          by (metis prod_cases4)
        obtain kvs' e1' l1' d1' where a':
          "executeFields rv fails' ty v p' sels d = (kvs', e1', l1', d1')"
          by (metis prod_cases4)
        from "4.IH"(1)[OF nn One, rule_format, OF ag]
        have "same_result (p = p') (kvs, e1, l1, d1) (kvs', e1', l1', d1')"
          by (simp only: a a')
        then have "kvs' = kvs" "d1' = d1" "p = p' \<longrightarrow> e1' = e1 \<and> l1' = l1"
          by (auto dest: same_resultD)
        with nn One a a' show ?thesis by (simp add: same_result_def completeValue.simps)
      next
        case (Many ty)
        show ?thesis
        proof (cases v)
          case (Arr items)
          obtain cs e1 l1 d1 where a:
            "completeListValue rv fails ty sels p 0 items d = (cs, e1, l1, d1)"
            by (metis prod_cases4)
          obtain cs' e1' l1' d1' where a':
            "completeListValue rv fails' ty sels p' 0 items d = (cs', e1', l1', d1')"
            by (metis prod_cases4)
          from "4.IH"(2)[OF nn Many Arr, rule_format, OF ag]
          have "same_result (p = p') (cs, e1, l1, d1) (cs', e1', l1', d1')"
            by (simp only: a a')
          then have "cs' = cs" "d1' = d1" "p = p' \<longrightarrow> e1' = e1 \<and> l1' = l1"
            by (auto dest: same_resultD)
          with nn Many Arr a a' show ?thesis by (simp add: same_result_def completeValue.simps)
        qed (use Many nn in \<open>simp_all add: same_result_def completeValue.simps\<close>)
      qed
    qed
  qed
next
  case (5 rv fails ty sels p i d)
  then show ?case by (simp add: same_result_def)
next
  case (6 rv fails ty sels p i x xs d)
  show ?case
  proof (intro allI impI)
    fix fails' p'
    assume ag: "agree fails p fails' p'"
    let ?item = "\<lambda>fl q. (if x = Null \<or> x = Undefined then (Null, [], [], d)
        else (case executeFields rv fl ty x (q @ [Idx i]) sels d of
                (kvs, e, l, d') \<Rightarrow> (Obj kvs, e, l, d')))"
    obtain c e1 l1 d1 where a: "?item fails p = (c, e1, l1, d1)"
      by (metis prod_cases4)
    obtain c' e1' l1' d1' where a': "?item fails' p' = (c', e1', l1', d1')"
      by (metis prod_cases4)
    have s1: "c' = c \<and> d1' = d1 \<and> (p = p' \<longrightarrow> e1' = e1 \<and> l1' = l1)"
    proof (cases "x = Null \<or> x = Undefined")
      case True
      with a a' show ?thesis by auto
    next
      case False
      obtain kvs e0 l0 d0 where b:
        "executeFields rv fails ty x (p @ [Idx i]) sels d = (kvs, e0, l0, d0)"
        by (metis prod_cases4)
      obtain kvs' e0' l0' d0' where b':
        "executeFields rv fails' ty x (p' @ [Idx i]) sels d = (kvs', e0', l0', d0')"
        by (metis prod_cases4)
      from "6.IH"(1)[OF False, rule_format, OF agree_step[OF ag, of "Idx i"]]
      have "same_result (p @ [Idx i] = p' @ [Idx i]) (kvs, e0, l0, d0) (kvs', e0', l0', d0')"
        by (simp only: b b')
      then have "kvs' = kvs" "d0' = d0" "p = p' \<longrightarrow> e0' = e0 \<and> l0' = l0"
        by (auto dest: same_resultD)
      with False a a' b b' show ?thesis by auto
    qed
    obtain cs e2 l2 d2 where b:
      "completeListValue rv fails ty sels p (Suc i) xs d1 = (cs, e2, l2, d2)"
      by (metis prod_cases4)
    obtain cs' e2' l2' d2' where b':
      "completeListValue rv fails' ty sels p' (Suc i) xs d1 = (cs', e2', l2', d2')"
      by (metis prod_cases4)
    from "6.IH"(2)[OF a[symmetric] refl refl, rule_format, OF ag]
    have "same_result (p = p') (cs, e2, l2, d2) (cs', e2', l2', d2')" by (simp only: b b')
    then have s2: "cs' = cs" "d2' = d2" "p = p' \<longrightarrow> e2' = e2 \<and> l2' = l2"
      by (auto dest: same_resultD)
    show "same_result (p = p') (completeListValue rv fails ty sels p i (x # xs) d)
            (completeListValue rv fails' ty sels p' i (x # xs) d)"
      using a a' b b' s1 s2 by (simp add: same_result_def)
  qed
qed

subsection \<open>One resolution strategy\<close>

lemma executeField_value:
  "value_of (executeField rv fails ty src p f d) =
     (case fieldType rv ty (f_name f) of
        None \<Rightarrow> None
      | Some ft \<Rightarrow>
          (case fst (resolve rv ty (f_name f) fails (p @ [Key (f_name f)]) src (f_args f) d) of
             Inl m \<Rightarrow> Some Null
           | Inr v \<Rightarrow>
               (case value_of (completeValue rv fails ft (f_sels f) (p @ [Key (f_name f)]) v
                       (snd (snd (resolve rv ty (f_name f) fails (p @ [Key (f_name f)]) src
                          (f_args f) d)))) of
                  Inl m \<Rightarrow> Some Null
                | Inr c \<Rightarrow> Some c)))"
  by (auto simp: executeField.simps value_of_def split: option.splits prod.splits sum.splits)

lemma no_relation_on_user_include:
  "n = ''userSubscribedTo'' \<or> n = ''subscribedToUser'' \<Longrightarrow>
     defaultFieldResolver (Obj (user_include d u)) n = Undefined"
  by (auto simp: defaultFieldResolver_def user_include_def user_scalars_def)

text \<open>
  C5, as the code has it. In part_001 the relation fields \<^verbatim>\<open>userSubscribedTo\<close> and
  \<^verbatim>\<open>subscribedToUser\<close> have resolvers on the \<^verbatim>\<open>User\<close> type that read the id of the
  parent and nothing else: for every user, every nested selection and every position in
  the document, the field resolves to the same value on the object that \<^verbatim>\<open>Query.user\<close>
  returns for the user as on the object that \<^verbatim>\<open>Query.users\<close> returns for it. In
  part_000 and index.ts the fields have no resolver, and on the object that
  \<^verbatim>\<open>Query.users\<close> returns they are null, for every user and every nested selection.
\<close>

theorem relation_fields_uniform_in_part_001:
  assumes "n = ''userSubscribedTo'' \<or> n = ''subscribedToUser''"
  shows "value_of (executeField Part001 nothing_fails User (user_with_rows d u) p
                     (Field n args sels) d)
         = value_of (executeField Part001 nothing_fails User (Obj (user_include d u)) p'
                     (Field n args sels) d) \<and>
         (rv \<noteq> Part001 \<longrightarrow>
            value_of (executeField rv fails User (Obj (user_include d u)) p'
                        (Field n args sels) d) = Some Null)"
proof -
  have ag: "agree nothing_fails q nothing_fails q'" for q q'
    by (simp add: agree_def nothing_fails_def)
  have cv: "value_of (completeValue Part001 nothing_fails ft sels q v d1)
            = value_of (completeValue Part001 nothing_fails ft sels q' v d1)"
    for ft v d1 q q'
    using executor_agree(3)[of nothing_fails q Part001 ft sels v d1, rule_format, OF ag]
    by (simp add: same_result_def value_of_def)
  from assms have one: "value_of (executeField Part001 nothing_fails User (user_with_rows d u) p
                     (Field n args sels) d)
         = value_of (executeField Part001 nothing_fails User (Obj (user_include d u)) p'
                     (Field n args sels) d)"
    by (auto simp: executeField_value fieldType_def resolve_def prisma_def nothing_fails_def
        cv[of _ "p @ [Key ''userSubscribedTo'']" _ _ "p' @ [Key ''userSubscribedTo'']"]
        cv[of _ "p @ [Key ''subscribedToUser'']" _ _ "p' @ [Key ''subscribedToUser'']"])
  have two: "value_of (executeField rv fails User (Obj (user_include d u)) p'
                        (Field n args sels) d) = Some Null" if "rv \<noteq> Part001"
  proof -
    have cn: "value_of (completeValue rv fails ft sels q Undefined d1) = Inr Null" for ft q d1
      by (simp add: completeValue.simps value_of_def)
    from that assms no_relation_on_user_include[OF assms, of d u] show ?thesis
      by (auto simp: executeField_value fieldType_def resolve_def cn)
  qed
  from one two show ?thesis by blast
qed

theorem relation_fields_uniform_in_part_001_witness:
  "value_of (executeField Part001 nothing_fails User
       (user_with_rows store_abc (UserRow ''A'' ''Ann'' 0)) [Key ''user'']
       (Field ''userSubscribedTo'' [] [Field ''id'' [] []]) store_abc)
     = value_of (executeField Part001 nothing_fails User
       (Obj (user_include store_abc (UserRow ''A'' ''Ann'' 0))) [Key ''users'', Idx 0]
       (Field ''userSubscribedTo'' [] [Field ''id'' [] []]) store_abc) \<and>
   value_of (executeField Part001 nothing_fails User
       (Obj (user_include store_abc (UserRow ''A'' ''Ann'' 0))) [Key ''users'', Idx 0]
       (Field ''userSubscribedTo'' [] [Field ''id'' [] []]) store_abc)
     = Some (Arr [Obj [(''id'', Str ''B'')]]) \<and>
   IndexTs \<noteq> Part001 \<and>
   value_of (executeField IndexTs nothing_fails User
       (Obj (user_include store_abc (UserRow ''A'' ''Ann'' 0))) [Key ''users'', Idx 0]
       (Field ''userSubscribedTo'' [] [Field ''id'' [] []]) store_abc)
     = Some Null"
proof -
  have "value_of (executeField Part001 nothing_fails User
       (Obj (user_include store_abc (UserRow ''A'' ''Ann'' 0))) [Key ''users'', Idx 0]
       (Field ''userSubscribedTo'' [] [Field ''id'' [] []]) store_abc)
     = Some (Arr [Obj [(''id'', Str ''B'')]])"
    by code_simp
  with relation_fields_uniform_in_part_001[of "''userSubscribedTo''" store_abc
      "UserRow ''A'' ''Ann'' 0" "[Key ''user'']" "[]" "[Field ''id'' [] []]" "[Key ''users'', Idx 0]"
      IndexTs nothing_fails]
  show ?thesis by simp
qed

text \<open>
  C5 fails as stated: in index.ts and in part_000 the two root queries disagree on the
  same user of the same store. \<^verbatim>\<open>Query.user\<close> re-projects the join rows it included, and
  the field is a list; \<^verbatim>\<open>Query.users\<close> includes no join rows, and the field is null.
\<close>

theorem root_queries_disagree_in_index_ts:
  "reply_of (route IndexTs nothing_fails (Parsed (query_user_userSubscribedTo ''A'')) store_abc)
     = Reply \<lparr>doc = Some (Obj [(''user'',
          Obj [(''userSubscribedTo'', Arr [Obj [(''id'', Str ''B'')]])])]), errors = []\<rparr> \<and>
   reply_of (route IndexTs nothing_fails (Parsed query_users_userSubscribedTo) store_abc)
     = Reply \<lparr>doc = Some (Obj [(''users'',
          Arr [Obj [(''userSubscribedTo'', Null)], Obj [(''userSubscribedTo'', Null)],
               Obj [(''userSubscribedTo'', Null)]])]), errors = []\<rparr> \<and>
   reply_of (route Part000 nothing_fails (Parsed (query_user_userSubscribedTo ''A'')) store_abc)
     = reply_of (route IndexTs nothing_fails (Parsed (query_user_userSubscribedTo ''A'')) store_abc) \<and>
   reply_of (route Part000 nothing_fails (Parsed query_users_userSubscribedTo) store_abc)
     = reply_of (route IndexTs nothing_fails (Parsed query_users_userSubscribedTo) store_abc)"
  by code_simp

subsection \<open>Absence is not an error\<close>

lemma find_absent: "k \<notin> key ` set rows \<Longrightarrow> find (\<lambda>r. key r = k) rows = None"
  by (auto simp: find_None_iff)

lemma find_present:
  "k \<in> key ` set rows \<Longrightarrow> \<exists>r. find (\<lambda>r. key r = k) rows = Some r \<and> key r = k"
  by (induction rows) auto

lemma transformedEntry_Null: "transformedEntry Null = Inr (Obj [(''userSubscribedTo'', Undefined), (''subscribedToUser'', Undefined)])"
  by (simp add: transformedEntry_def reproject_def and_then_def spread_def)

lemma handler_valid_query:
  "validate rv (QueryOp sels) = [] \<Longrightarrow>
     executeFields rv fails Query Undefined [] (collectFields sels) d = (kvs, es, l, d') \<Longrightarrow>
     handler rv fails (Parsed (QueryOp sels)) d = (Reply \<lparr>doc = Some (Obj kvs), errors = es\<rparr>, l, d')"
  by (simp add: handler_def graphql_def execute_def)

lemma single_entity_absent:
  assumes n: "n \<in> {''memberType'', ''post'', ''user'', ''profile''}"
    and absent: "i \<notin> stored_ids d n"
    and ok: "\<not> fails [Key n]"
    and valid: "validate rv (query_one n i sels) = []"
    and shallow: "queryDepth (query_one n i sels) \<le> 5"
  shows "reply_of (route rv fails (Parsed (query_one n i sels)) d)
           = Reply \<lparr>doc = Some (Obj [(n, Null)]), errors = []\<rparr>"
proof -
  have v: "validate rv (QueryOp [FieldNode n [(''id'', i)] sels]) = []"
    using valid by (simp add: query_one_def)
  have s: "queryDepth (QueryOp [FieldNode n [(''id'', i)] sels]) \<le> 5"
    using shallow by (simp add: query_one_def)
  have r: "fst (resolve rv Query n fails [Key n] Undefined [(''id'', i)] d) = Inr Null \<and>
           snd (snd (resolve rv Query n fails [Key n] Undefined [(''id'', i)] d)) = d"
  proof -
    consider "n = ''memberType''" | "n = ''post''" | "n = ''user''" | "n = ''profile''"
      using n by auto
    then show ?thesis
    proof cases
      case 1
      with absent have "find (\<lambda>r. mt_id r = i) (memberTypes d) = None"
        by (simp add: stored_ids_def find_absent)
      with 1 ok show ?thesis
        by (simp add: resolve_def resolve_Query_def prisma_def findUnique_def one_or_null_def)
    next
      case 2
      with absent have "find (\<lambda>r. post_id r = i) (posts d) = None"
        by (simp add: stored_ids_def find_absent)
      with 2 ok show ?thesis
        by (simp add: resolve_def resolve_Query_def prisma_def findUnique_def one_or_null_def)
    next
      case 3
      with absent have "find (\<lambda>r. user_id r = i) (users d) = None"
        by (simp add: stored_ids_def find_absent)
      with 3 ok show ?thesis
        by (simp add: resolve_def resolve_Query_def prisma_def Query_user_reshaped_def
            findUnique_def one_or_null_def transformedEntry_Null truthy_def)
    next
      case 4
      with absent have "find (\<lambda>r. profile_id r = i) (profiles d) = None"
        by (simp add: stored_ids_def find_absent)
      with 4 ok show ?thesis
        by (simp add: resolve_def resolve_Query_def prisma_def findUnique_def one_or_null_def)
    qed
  qed
  have t: "\<exists>ty. fieldType rv Query n = Some (One ty)"
    using n by (auto simp: fieldType_def)
  then obtain ty where ty: "fieldType rv Query n = Some (One ty)" by blast
  obtain x l1 d1 where a: "resolve rv Query n fails [Key n] Undefined [(''id'', i)] d = (x, l1, d1)"
    by (metis prod_cases3)
  with r have "x = Inr Null" "d1 = d" by auto
  with a ty have "executeFields rv fails Query Undefined []
        (collectFields [FieldNode n [(''id'', i)] sels]) d
      = ([(n, Null)], [], l1, d)"
    by (simp add: collectFields_def executeField.simps completeValue.simps)
  from handler_valid_query[OF v this] route_valid_query[OF v s, of fails d] show ?thesis
    by (simp add: reply_of_def query_one_def)
qed

text \<open>A root list field over a table without rows.\<close>

lemma empty_table_empty_list:
  assumes n: "n \<in> {''memberTypes'', ''posts'', ''users'', ''profiles''}"
    and none: "table_size d n = 0"
    and ok: "\<not> fails [Key n]"
    and valid: "validate rv (query_list n sels) = []"
    and shallow: "queryDepth (query_list n sels) \<le> 5"
  shows "reply_of (route rv fails (Parsed (query_list n sels)) d)
           = Reply \<lparr>doc = Some (Obj [(n, Arr [])]), errors = []\<rparr>"
proof -
  have v: "validate rv (QueryOp [FieldNode n [] sels]) = []"
    using valid by (simp add: query_list_def)
  have s: "queryDepth (QueryOp [FieldNode n [] sels]) \<le> 5"
    using shallow by (simp add: query_list_def)
  have r: "resolve rv Query n fails [Key n] Undefined [] d
      = (Inr (Arr []), snd (resolve rv Query n fails [Key n] Undefined [] d)) \<and>
    snd (snd (resolve rv Query n fails [Key n] Undefined [] d)) = d"
  proof -
    consider "n = ''memberTypes''" | "n = ''posts''" | "n = ''users''" | "n = ''profiles''"
      using n by auto
    then show ?thesis
      using none ok
      by cases (simp_all add: resolve_def resolve_Query_def prisma_def table_size_def)
  qed
  have "\<exists>ty. fieldType rv Query n = Some (Many ty)"
    using n by (auto simp: fieldType_def)
  then obtain ty where ty: "fieldType rv Query n = Some (Many ty)" by blast
  obtain x l1 d1 where a: "resolve rv Query n fails [Key n] Undefined [] d = (x, l1, d1)"
    by (metis prod_cases3)
  with r have "x = Inr (Arr [])" "d1 = d" by auto
  with a ty have "executeFields rv fails Query Undefined [] (collectFields [FieldNode n [] sels]) d
      = ([(n, Arr [])], [], l1, d)"
    by (simp add: collectFields_def executeField.simps completeValue.simps)
  from handler_valid_query[OF v this] route_valid_query[OF v s, of fails d] show ?thesis
    by (simp add: reply_of_def query_list_def)
qed

lemma no_rows_no_users:
  "rows_userSubscribedTo d i = [] \<Longrightarrow> where_subscribedToUser_some d i = []"
  "rows_subscribedToUser d i = [] \<Longrightarrow> where_userSubscribedTo_some d i = []"
  by (auto simp: where_subscribedToUser_some_def where_userSubscribedTo_some_def
      rows_userSubscribedTo_def rows_subscribedToUser_def filter_empty_conv)

text \<open>The relation resolvers of part_001, on any user object and at any path.\<close>

lemma resolver_finds_nothing:
  assumes "defaultFieldResolver src ''id'' = Str i"
  shows "rows_userSubscribedTo d i = [] \<Longrightarrow> \<not> fails (p @ [Key ''userSubscribedTo'']) \<Longrightarrow>
           executeField Part001 fails User src p (Field ''userSubscribedTo'' args sels) d
             = (Some (Arr []), [],
                [(p @ [Key ''userSubscribedTo''], User_findMany_subscribedToUser_some (Str i))], d)"
    and "rows_subscribedToUser d i = [] \<Longrightarrow> \<not> fails (p @ [Key ''subscribedToUser'']) \<Longrightarrow>
           executeField Part001 fails User src p (Field ''subscribedToUser'' args sels) d
             = (Some (Arr []), [],
                [(p @ [Key ''subscribedToUser''], User_findMany_userSubscribedTo_some (Str i))], d)"
  using assms
  by (simp_all add: executeField.simps completeValue.simps fieldType_def resolve_def prisma_def
      no_rows_no_users)

lemma user_with_rows_is_object [simp]:
  "user_with_rows d u \<noteq> Null" "user_with_rows d u \<noteq> Undefined"
  by (simp_all add: user_with_rows_def)

lemma relations_empty:
  assumes present: "i \<in> stored_ids d ''user''"
    and none: "rows_userSubscribedTo d i = []" "rows_subscribedToUser d i = []"
  shows "reply_of (route rv nothing_fails (Parsed (query_user_relations i)) d)
           = Reply \<lparr>doc = Some (Obj [(''user'',
                Obj [(''userSubscribedTo'', Arr []), (''subscribedToUser'', Arr [])])]),
               errors = []\<rparr>"
proof -
  from present obtain u where u: "find (\<lambda>r. user_id r = i) (users d) = Some u" "user_id u = i"
    using find_present[of i user_id "users d"] by (auto simp: stored_ids_def)
  have v: "validate rv (query_user_relations i) = []"
    by (cases rv)
      (simp_all add: validate_def specifiedRules_def query_user_relations_def fieldType_def
        validateArgument_def uniqueArgumentNames_def)
  have s: "queryDepth (query_user_relations i) \<le> 5"
    by (simp add: queryDepth_def selections_def query_user_relations_def)
  have e: "execute rv nothing_fails (query_user_relations i) d
      = (\<lparr>doc = Some (Obj [(''user'',
                Obj [(''userSubscribedTo'', Arr []), (''subscribedToUser'', Arr [])])]),
               errors = []\<rparr>,
         fst (snd (execute rv nothing_fails (query_user_relations i) d)), d)"
  proof (cases "rv = Part001")
    case True
    with u none show ?thesis
      by (simp add: execute_def query_user_relations_def collectFields_def executeField.simps
          completeValue.simps fieldType_def resolve_def resolve_Query_def prisma_def
          nothing_fails_def findUnique_def one_or_null_def no_rows_no_users)
  next
    case False
    have t: "transformedEntry (user_deep d u)
        = Inr (Obj (user_include d u @
                 [(''userSubscribedTo'', Arr []), (''subscribedToUser'', Arr [])]))"
      using u none
      by (simp add: transformedEntry_def reproject_def and_then_def spread_def user_deep_def
          user_include_def user_scalars_def)
    have tr: "truthy (user_deep d u)"
      by (simp add: truthy_def user_deep_def)
    have dr:
      "defaultFieldResolver (Obj (user_include d u @
           [(''userSubscribedTo'', Arr []), (''subscribedToUser'', Arr [])])) ''userSubscribedTo''
         = Arr []"
      "defaultFieldResolver (Obj (user_include d u @
           [(''userSubscribedTo'', Arr []), (''subscribedToUser'', Arr [])])) ''subscribedToUser''
         = Arr []"
      by (simp_all add: defaultFieldResolver_def user_include_def user_scalars_def)
    from False u show ?thesis
      by (simp add: execute_def query_user_relations_def collectFields_def executeField.simps
          completeValue.simps fieldType_def resolve_def resolve_Query_def
          Query_user_reshaped_def prisma_def nothing_fails_def findUnique_def one_or_null_def
          t tr dr)
  qed
  have "handler rv nothing_fails (Parsed (query_user_relations i)) d
      = (Reply \<lparr>doc = Some (Obj [(''user'',
                Obj [(''userSubscribedTo'', Arr []), (''subscribedToUser'', Arr [])])]),
               errors = []\<rparr>,
         fst (snd (execute rv nothing_fails (query_user_relations i) d)), d)"
    using v by (simp add: handler_def graphql_def) (subst e, simp)
  moreover have "route rv nothing_fails (Parsed (query_user_relations i)) d
      = handler rv nothing_fails (Parsed (query_user_relations i)) d"
    using route_valid_query[of rv _ nothing_fails d] v s
    by (simp add: query_user_relations_def)
  ultimately show ?thesis by (simp add: reply_of_def)
qed

text \<open>
  C6, as the code has it. On every revision, a single-entity root field (\<^verbatim>\<open>memberType\<close>,
  \<^verbatim>\<open>post\<close>, \<^verbatim>\<open>user\<close>, \<^verbatim>\<open>profile\<close>) asked for an id that its table does not hold resolves
  to null with an empty error list, provided the query is valid (and within the depth
  limit) and the storage collaborator does not fail the fetch. A many-cardinality lookup
  that the code performs and that finds no row resolves to the empty list, with no
  error:
  \<^item> a root list field over a table without rows, on every revision;
  \<^item> both relation fields of \<^verbatim>\<open>user(id)\<close>, on every revision, for a user who is in the
    store and has no subscription row;
  \<^item> in part_001, \<^verbatim>\<open>userSubscribedTo\<close> and \<^verbatim>\<open>subscribedToUser\<close> on any user object, at any
    path and whatever is selected below, when the user's id has no row on that side.
\<close>

theorem absent_is_null_or_empty:
  "(n \<in> {''memberType'', ''post'', ''user'', ''profile''} \<and> i \<notin> stored_ids d n \<and>
    \<not> fails [Key n] \<and> validate rv (query_one n i sels) = [] \<and>
    queryDepth (query_one n i sels) \<le> 5 \<longrightarrow>
      reply_of (route rv fails (Parsed (query_one n i sels)) d)
        = Reply \<lparr>doc = Some (Obj [(n, Null)]), errors = []\<rparr>) \<and>
   (m \<in> {''memberTypes'', ''posts'', ''users'', ''profiles''} \<and> table_size d m = 0 \<and>
    \<not> fails [Key m] \<and> validate rv (query_list m sels') = [] \<and>
    queryDepth (query_list m sels') \<le> 5 \<longrightarrow>
      reply_of (route rv fails (Parsed (query_list m sels')) d)
        = Reply \<lparr>doc = Some (Obj [(m, Arr [])]), errors = []\<rparr>) \<and>
   (j \<in> stored_ids d ''user'' \<and> rows_userSubscribedTo d j = [] \<and>
    rows_subscribedToUser d j = [] \<longrightarrow>
      reply_of (route rv nothing_fails (Parsed (query_user_relations j)) d)
        = Reply \<lparr>doc = Some (Obj [(''user'',
             Obj [(''userSubscribedTo'', Arr []), (''subscribedToUser'', Arr [])])]),
            errors = []\<rparr>) \<and>
   (defaultFieldResolver src ''id'' = Str k \<and> rows_userSubscribedTo d k = [] \<and>
    \<not> fails (p @ [Key ''userSubscribedTo'']) \<longrightarrow>
      executeField Part001 fails User src p (Field ''userSubscribedTo'' args fs) d
        = (Some (Arr []), [],
           [(p @ [Key ''userSubscribedTo''], User_findMany_subscribedToUser_some (Str k))], d)) \<and>
   (defaultFieldResolver src ''id'' = Str k \<and> rows_subscribedToUser d k = [] \<and>
    \<not> fails (p @ [Key ''subscribedToUser'']) \<longrightarrow>
      executeField Part001 fails User src p (Field ''subscribedToUser'' args fs) d
        = (Some (Arr []), [],
           [(p @ [Key ''subscribedToUser''], User_findMany_userSubscribedTo_some (Str k))], d))"
  using single_entity_absent[of n i d fails rv sels] empty_table_empty_list[of m d fails rv sels']
    relations_empty[of j d rv] resolver_finds_nothing[of src k d fails p args fs]
  by blast

theorem absent_is_null_or_empty_witness:
  "reply_of (route IndexTs nothing_fails
       (Parsed (query_one ''user'' ''Z'' [FieldNode ''id'' [] []])) store_abcd)
     = Reply \<lparr>doc = Some (Obj [(''user'', Null)]), errors = []\<rparr> \<and>
   reply_of (route IndexTs nothing_fails
       (Parsed (query_list ''posts'' [FieldNode ''id'' [] []])) store_abcd)
     = Reply \<lparr>doc = Some (Obj [(''posts'', Arr [])]), errors = []\<rparr> \<and>
   reply_of (route IndexTs nothing_fails (Parsed (query_user_relations ''D'')) store_abcd)
     = Reply \<lparr>doc = Some (Obj [(''user'',
          Obj [(''userSubscribedTo'', Arr []), (''subscribedToUser'', Arr [])])]),
         errors = []\<rparr> \<and>
   executeField Part001 nothing_fails User (Obj (user_scalars (UserRow ''D'' ''Di'' 0)))
       [Key ''users'', Idx 3] (Field ''userSubscribedTo'' [] [Field ''id'' [] []]) store_abcd
     = (Some (Arr []), [],
        [([Key ''users'', Idx 3, Key ''userSubscribedTo''],
          User_findMany_subscribedToUser_some (Str ''D''))], store_abcd) \<and>
   executeField Part001 nothing_fails User (Obj (user_scalars (UserRow ''D'' ''Di'' 0)))
       [Key ''users'', Idx 3] (Field ''subscribedToUser'' [] [Field ''id'' [] []]) store_abcd
     = (Some (Arr []), [],
        [([Key ''users'', Idx 3, Key ''subscribedToUser''],
          User_findMany_userSubscribedTo_some (Str ''D''))], store_abcd)"
proof -
  have h1: "''user'' \<in> {''memberType'', ''post'', ''user'', ''profile''}" by simp
  have h2: "''Z'' \<notin> stored_ids store_abcd ''user''" by code_simp
  have h3: "\<not> nothing_fails q" for q by (simp add: nothing_fails_def)
  have h4: "validate IndexTs (query_one ''user'' ''Z'' [FieldNode ''id'' [] []]) = []" by code_simp
  have h5: "queryDepth (query_one ''user'' ''Z'' [FieldNode ''id'' [] []]) \<le> 5" by code_simp
  have h6: "''D'' \<in> stored_ids store_abcd ''user''" by code_simp
  have h7: "rows_userSubscribedTo store_abcd ''D'' = []" by code_simp
  have h8: "rows_subscribedToUser store_abcd ''D'' = []" by code_simp
  have g1: "''posts'' \<in> {''memberTypes'', ''posts'', ''users'', ''profiles''}" by simp
  have g2: "table_size store_abcd ''posts'' = 0" by code_simp
  have g4: "validate IndexTs (query_list ''posts'' [FieldNode ''id'' [] []]) = []" by code_simp
  have g5: "queryDepth (query_list ''posts'' [FieldNode ''id'' [] []]) \<le> 5" by code_simp
  have k1: "defaultFieldResolver (Obj (user_scalars (UserRow ''D'' ''Di'' 0))) ''id'' = Str ''D''"
    by code_simp
  from absent_is_null_or_empty[of "''user''" "''Z''" store_abcd nothing_fails IndexTs
      "[FieldNode ''id'' [] []]" "''posts''" "[FieldNode ''id'' [] []]" "''D''"
      "Obj (user_scalars (UserRow ''D'' ''Di'' 0))" "''D''" "[Key ''users'', Idx 3]" "[]"
      "[Field ''id'' [] []]"]
    h1 h2 h3 h4 h5 h6 h7 h8 g1 g2 g4 g5 k1
  show ?thesis by simp
qed

text \<open>
  C6 fails as stated: a many-cardinality relation whose value is absent is not always
  the empty list. In part_001 \<^verbatim>\<open>MemberType.profiles\<close> has no resolver and
  \<^verbatim>\<open>Query.memberTypes\<close> includes nothing: for a tier that no profile has, the field is
  null. In index.ts \<^verbatim>\<open>userSubscribedTo\<close> under \<^verbatim>\<open>users\<close> is null for D, who has no
  subscription row.
\<close>

theorem absent_relation_is_null:
  "profiles store_tier = [] \<and>
   validate Part001 query_memberTypes_profiles = [] \<and>
   reply_of (route Part001 nothing_fails (Parsed query_memberTypes_profiles) store_tier)
     = Reply \<lparr>doc = Some (Obj [(''memberTypes'', Arr [Obj [(''profiles'', Null)]])]),
         errors = []\<rparr> \<and>
   rows_userSubscribedTo store_abcd ''D'' = [] \<and>
   reply_of (route IndexTs nothing_fails (Parsed query_users_userSubscribedTo) store_abcd)
     = Reply \<lparr>doc = Some (Obj [(''users'',
           Arr [Obj [(''userSubscribedTo'', Null)], Obj [(''userSubscribedTo'', Null)],
                Obj [(''userSubscribedTo'', Null)], Obj [(''userSubscribedTo'', Null)]])]),
         errors = []\<rparr>"
  by code_simp

subsection \<open>The document is shaped by the query\<close>




subsection \<open>Where errors and fetches are recorded\<close>

lemma starts_mono: "starts p S q \<Longrightarrow> (\<And>s. S s \<Longrightarrow> S' s) \<Longrightarrow> starts p S' q"
  by (auto simp: starts_def)

lemma starts_step: "starts (p @ [s]) S q \<Longrightarrow> starts p (\<lambda>t. t = s) q"
  by (auto simp: starts_def)

lemma starts_here: "starts p (\<lambda>t. t = s) (p @ [s])"
  by (auto simp: starts_def)

lemma confined_mono:
  "confined p S es l \<Longrightarrow> (\<And>s. S s \<Longrightarrow> S' s) \<Longrightarrow> confined p S' es l"
  by (auto simp: confined_def error_starts_def list_all_iff split: option.splits
      intro: starts_mono)

lemma confined_step: "confined (p @ [s]) S es l \<Longrightarrow> confined p (\<lambda>t. t = s) es l"
  by (auto simp: confined_def error_starts_def list_all_iff split: option.splits
      intro: starts_step)

lemma confined_append:
  "confined p S es l \<Longrightarrow> confined p S es' l' \<Longrightarrow> confined p S (es @ es') (l @ l')"
  by (simp add: confined_def)

lemma confined_nil [simp]: "confined p S [] []"
  by (simp add: confined_def)

lemma prisma_log: "fst (snd (prisma fails pth c d)) = [(pth, c)]"
  by (simp add: prisma_def)

lemma resolve_log:
  "fst (snd (resolve rv ty n fails pth src args d)) = [] \<or>
   (\<exists>c. fst (snd (resolve rv ty n fails pth src args d)) = [(pth, c)])"
  by (auto simp: resolve_def resolve_Query_def resolve_Mutation_def Query_user_reshaped_def
      prisma_def split: sum.splits)

lemma resolve_confined:
  "resolve rv ty n fails (p @ [s]) src args d = (x, l, d') \<Longrightarrow> confined p (\<lambda>t. t = s) [] l"
  using resolve_log[of rv ty n fails "p @ [s]" src args d]
  by (auto simp: confined_def starts_here)

lemma error_confined: "confined p (\<lambda>t. t = s) [GqlError m (Some (p @ [s]))] []"
  by (simp add: confined_def error_starts_def starts_here)

lemma executor_confined:
  "confined p (\<lambda>s. \<exists>f\<in>set fs. s = Key (f_name f))
     (errors_of (executeFields rv fails ty src p fs d))
     (log_of (executeFields rv fails ty src p fs d))"
  "confined p (\<lambda>s. s = Key (f_name f))
     (errors_of (executeField rv fails ty src p f d))
     (log_of (executeField rv fails ty src p f d))"
  "confined p (\<lambda>s. True)
     (errors_of (completeValue rv fails ft sels p v d))
     (log_of (completeValue rv fails ft sels p v d))"
  "confined p (\<lambda>s. \<exists>j\<ge>i. s = Idx j)
     (errors_of (completeListValue rv fails ty sels p i xs d))
     (log_of (completeListValue rv fails ty sels p i xs d))"
proof (induction rv fails ty src p fs d and rv fails ty src p f d and rv fails ft sels p v d
    and rv fails ty sels p i xs d
    rule: executeFields_executeField_completeValue_completeListValue.induct)
  case (1 rv fails ty src p d)
  then show ?case by (simp add: errors_of_def log_of_def)
next
  case (2 rv fails ty src p f fs d)
  obtain r1 e1 l1 d1 where a: "executeField rv fails ty src p f d = (r1, e1, l1, d1)"
    by (metis prod_cases4)
  obtain rs e2 l2 d2 where b: "executeFields rv fails ty src p fs d1 = (rs, e2, l2, d2)"
    by (metis prod_cases4)
  from "2.IH"(1) have "confined p (\<lambda>s. s = Key (f_name f)) e1 l1"
    by (simp add: errors_of_def log_of_def a)
  then have c1: "confined p (\<lambda>s. \<exists>g\<in>set (f # fs). s = Key (f_name g)) e1 l1"
    by (rule confined_mono) simp
  from "2.IH"(2)[OF a[symmetric] refl refl]
  have "confined p (\<lambda>s. \<exists>g\<in>set fs. s = Key (f_name g)) e2 l2"
    by (simp add: errors_of_def log_of_def b)
  then have c2: "confined p (\<lambda>s. \<exists>g\<in>set (f # fs). s = Key (f_name g)) e2 l2"
    by (rule confined_mono) auto
  from confined_append[OF c1 c2] a b show ?case
    by (simp add: errors_of_def log_of_def)
next
  case (3 rv fails ty src p f d)
  show ?case
  proof (cases "fieldType rv ty (f_name f)")
    case None
    then show ?thesis by (simp add: executeField.simps errors_of_def log_of_def)
  next
    case (Some ft)
    let ?k = "Key (f_name f)"
    obtain x l1 d1 where a:
      "resolve rv ty (f_name f) fails (p @ [?k]) src (f_args f) d = (x, l1, d1)"
      by (metis prod_cases3)
    note c1 = resolve_confined[OF a]
    show ?thesis
    proof (cases x)
      case (Inl m)
      from confined_append[OF error_confined[of p ?k m] c1] Some a Inl show ?thesis
        by (simp add: executeField.simps errors_of_def log_of_def)
    next
      case (Inr v)
      obtain y e2 l2 d2 where b:
        "completeValue rv fails ft (f_sels f) (p @ [?k]) v d1 = (y, e2, l2, d2)"
        by (metis prod_cases4)
      from "3.IH"[OF Some a[symmetric] Inr refl]
      have "confined (p @ [?k]) (\<lambda>s. True) e2 l2"
        by (simp add: errors_of_def log_of_def b)
      then have c2: "confined p (\<lambda>t. t = ?k) e2 l2" by (rule confined_step)
      from confined_append[OF c1 c2] have c3: "confined p (\<lambda>t. t = ?k) e2 (l1 @ l2)" by simp
      from confined_append[OF c3 error_confined[of p ?k]]
      have c4: "confined p (\<lambda>t. t = ?k) (e2 @ [GqlError m (Some (p @ [?k]))]) (l1 @ l2)" for m
        by simp
      from Some a Inr b c3 c4 show ?thesis
        by (cases y) (simp_all add: executeField.simps errors_of_def log_of_def)
    qed
  qed
next
  case (4 rv fails ft sels p v d)
  show ?case
  proof (cases "v = Null \<or> v = Undefined")
    case True
    then show ?thesis by (auto simp: completeValue.simps errors_of_def log_of_def)
  next
    case nn: False
    show ?thesis
    proof (cases ft)
      case Leaf
      with nn show ?thesis by (simp add: completeValue.simps errors_of_def log_of_def)
    next
      case (One ty)
      obtain kvs e1 l1 d1 where a: "executeFields rv fails ty v p sels d = (kvs, e1, l1, d1)"
        by (metis prod_cases4)
      from "4.IH"(1)[OF nn One]
      have "confined p (\<lambda>s. \<exists>f\<in>set sels. s = Key (f_name f)) e1 l1"
        by (simp add: errors_of_def log_of_def a)
      then have "confined p (\<lambda>s. True) e1 l1" by (rule confined_mono) simp
      with nn One a show ?thesis by (simp add: completeValue.simps errors_of_def log_of_def)
    next
      case (Many ty)
      show ?thesis
      proof (cases v)
        case (Arr items)
        obtain cs e1 l1 d1 where a:
          "completeListValue rv fails ty sels p 0 items d = (cs, e1, l1, d1)"
          by (metis prod_cases4)
        from "4.IH"(2)[OF nn Many Arr]
        have "confined p (\<lambda>s. \<exists>j\<ge>0. s = Idx j) e1 l1"
          by (simp add: errors_of_def log_of_def a)
        then have "confined p (\<lambda>s. True) e1 l1" by (rule confined_mono) simp
        with nn Many Arr a show ?thesis
          by (simp add: completeValue.simps errors_of_def log_of_def)
      qed (use Many nn in \<open>simp_all add: completeValue.simps errors_of_def log_of_def\<close>)
    qed
  qed
next
  case (5 rv fails ty sels p i d)
  then show ?case by (simp add: errors_of_def log_of_def)
next
  case (6 rv fails ty sels p i x xs d)
  let ?item = "(if x = Null \<or> x = Undefined then (Null, [], [], d)
      else (case executeFields rv fails ty x (p @ [Idx i]) sels d of
              (kvs, e, l, d') \<Rightarrow> (Obj kvs, e, l, d')))"
  obtain c e1 l1 d1 where a: "?item = (c, e1, l1, d1)"
    by (metis prod_cases4)
  have c1: "confined p (\<lambda>s. \<exists>j\<ge>i. s = Idx j) e1 l1"
  proof (cases "x = Null \<or> x = Undefined")
    case True
    with a show ?thesis by auto
  next
    case False
    obtain kvs e0 l0 d0 where b:
      "executeFields rv fails ty x (p @ [Idx i]) sels d = (kvs, e0, l0, d0)"
      by (metis prod_cases4)
    from "6.IH"(1)[OF False]
    have "confined (p @ [Idx i]) (\<lambda>s. \<exists>f\<in>set sels. s = Key (f_name f)) e0 l0"
      by (simp add: errors_of_def log_of_def b)
    then have "confined p (\<lambda>t. t = Idx i) e0 l0" by (rule confined_step)
    then have "confined p (\<lambda>s. \<exists>j\<ge>i. s = Idx j) e0 l0" by (rule confined_mono) auto
    with False a b show ?thesis by auto
  qed
  obtain cs e2 l2 d2 where b:
    "completeListValue rv fails ty sels p (Suc i) xs d1 = (cs, e2, l2, d2)"
    by (metis prod_cases4)
  from "6.IH"(2)[OF a[symmetric] refl refl]
  have "confined p (\<lambda>s. \<exists>j\<ge>Suc i. s = Idx j) e2 l2"
    by (simp add: errors_of_def log_of_def b)
  then have c2: "confined p (\<lambda>s. \<exists>j\<ge>i. s = Idx j) e2 l2"
    by (rule confined_mono) auto
  from confined_append[OF c1 c2] a b show ?case
    by (simp add: errors_of_def log_of_def)
qed



lemma executeFields_keys:
  "fst ` set (value_of (executeFields rv fails ty src p fs d)) \<subseteq> f_name ` set fs"
proof (induction fs arbitrary: d)
  case Nil
  then show ?case by (simp add: value_of_def)
next
  case (Cons g gs)
  obtain r1 e1 l1 d1 where a: "executeField rv fails ty src p g d = (r1, e1, l1, d1)"
    by (metis prod_cases4)
  obtain rs e2 l2 d2 where b: "executeFields rv fails ty src p gs d1 = (rs, e2, l2, d2)"
    by (metis prod_cases4)
  from Cons.IH[of d1] b have "fst ` set rs \<subseteq> f_name ` set gs" by (simp add: value_of_def)
  with a b show ?case by (cases r1) (auto simp: value_of_def)
qed








subsection \<open>One fetch fails\<close>

lemma take_branch: "take (length (p @ s0 # q)) (p @ s # r) = p @ s0 # q \<Longrightarrow> s = s0"
  by simp

lemma take_here: "take (length (p @ [s])) (p @ s # r) = p @ [s]"
  by simp

lemma error_startsD:
  "error_starts p S e \<Longrightarrow> \<exists>s r. err_path e = Some (p @ s # r) \<and> S s"
  by (cases "err_path e") (auto simp: error_starts_def starts_def)

lemma confined_elsewhere:
  assumes "confined p S es l" and "x = p @ s0 # q" and "\<not> S s0"
  shows "(\<forall>e\<in>set es. \<not> under x e) \<and> x \<notin> fst ` set l"
proof (intro conjI ballI notI)
  fix e
  assume e: "e \<in> set es" and u: "under x e"
  from assms(1) e have "error_starts p S e"
    by (simp add: confined_def list_all_iff)
  from error_startsD[OF this] obtain s r where "err_path e = Some (p @ s # r)" "S s"
    by blast
  with u assms(2) have "take (length (p @ s0 # q)) (p @ s # r) = p @ s0 # q"
    by (simp add: under_def)
  from take_branch[OF this] \<open>S s\<close> assms(3) show False by simp
next
  assume "x \<in> fst ` set l"
  with assms(1) obtain s r where "x = p @ s # r" "S s"
    by (auto simp: confined_def list_all_iff starts_def)
  with assms(2,3) show False by simp
qed

lemma confined_all_under:
  assumes "confined p (\<lambda>t. t = s) es l"
  shows "\<forall>e\<in>set es. under (p @ [s]) e"
proof
  fix e
  assume "e \<in> set es"
  with assms have "error_starts p (\<lambda>t. t = s) e"
    by (simp add: confined_def list_all_iff)
  from error_startsD[OF this] obtain r where "err_path e = Some (p @ s # r)"
    by blast
  then show "under (p @ [s]) e"
    using take_here[of p s r] by (simp add: under_def)
qed

lemma confined_form:
  assumes "confined p S es l" and "x \<in> fst ` set l"
  shows "\<exists>s r. x = p @ s # r \<and> S s"
  using assms by (auto simp: confined_def list_all_iff starts_def)

lemma confined_strict:
  assumes "confined p S es l"
  shows "p \<notin> fst ` set l"
  using assms by (auto simp: confined_def list_all_iff starts_def)

lemma under_failure [simp]: "under x (failure x)"
  by (simp add: under_def failure_def)

lemma settled_here: "\<forall>e\<in>set e0. under x e \<Longrightarrow> settled x e0 [failure x]"
  by (auto simp: settled_def filter_empty_conv)

lemma settled_left:
  "settled x e0 e1 \<Longrightarrow> \<forall>e\<in>set es. \<not> under x e \<Longrightarrow> settled x (e0 @ es) (e1 @ es)"
  by (auto simp: settled_def filter_empty_conv)

lemma settled_right:
  "settled x e0 e1 \<Longrightarrow> \<forall>e\<in>set es. \<not> under x e \<Longrightarrow> settled x (es @ e0) (es @ e1)"
  by (auto simp: settled_def filter_empty_conv)

lemma not_under_above: "\<not> under (p @ s # r) (GqlError m (Some p))"
  by (simp add: under_def)

lemma null_at_Null [simp]: "null_at q Null = Null"
proof (cases q)
  case (Cons s r)
  then show ?thesis by (cases s) simp_all
qed simp

lemma resolve_unfailed:
  "pth \<noteq> x \<Longrightarrow>
     resolve rv ty n (also_fails x fails) pth src args d = resolve rv ty n fails pth src args d"
  using resolve_agree[of "also_fails x fails" pth fails pth rv ty n src args d]
  by (simp add: also_fails_def)

lemma resolve_nolog:
  "fst (snd (resolve rv ty n fails pth src args d)) = [] \<Longrightarrow>
     resolve rv ty n fails' pth src args d = resolve rv ty n fails pth src args d"
  by (auto simp: resolve_def resolve_Query_def resolve_Mutation_def Query_user_reshaped_def
      prisma_def split: if_splits sum.splits)

lemma resolve_failed:
  assumes "ty \<noteq> Mutation"
    and "fst (snd (resolve rv ty n fails x src args d)) \<noteq> []"
  shows "resolve rv ty n (also_fails x fails) x src args d
           = (Inl ''storage failure'', fst (snd (resolve rv ty n fails x src args d)), d)"
  using assms
  by (auto simp: resolve_def resolve_Query_def Query_user_reshaped_def
      prisma_def also_fails_def split: if_splits sum.splits)

lemma agree_unless_below:
  "\<forall>r. r \<noteq> [] \<longrightarrow> x \<noteq> p @ r \<Longrightarrow> agree fails p (also_fails x fails) p"
  by (auto simp: agree_def also_fails_def)

lemma parts [simp]:
  "value_of (a, b, c, d) = a" "errors_of (a, b, c, d) = b"
  "log_of (a, b, c, d) = c" "store_of (a, b, c, d) = d"
  by (simp_all add: value_of_def errors_of_def log_of_def store_of_def)

lemma failed_at_same: "x \<notin> fst ` set (log_of X0) \<Longrightarrow> X1 = X0 \<Longrightarrow> failed_at x X0 X1 R"
  by (simp add: failed_at_def)

lemma failed_at_changed:
  "x \<in> fst ` set (log_of X0) \<Longrightarrow> R (value_of X0) (value_of X1) \<Longrightarrow>
     settled x (errors_of X0) (errors_of X1) \<Longrightarrow> store_of X1 = store_of X0 \<Longrightarrow>
     failed_at x X0 X1 R"
  by (simp add: failed_at_def)

lemma failed_at_sameD: "failed_at x X0 X1 R \<Longrightarrow> x \<notin> fst ` set (log_of X0) \<Longrightarrow> X1 = X0"
  by (simp add: failed_at_def)

lemma failed_at_changedD:
  "failed_at x X0 X1 R \<Longrightarrow> x \<in> fst ` set (log_of X0) \<Longrightarrow>
     R (value_of X0) (value_of X1) \<and> settled x (errors_of X0) (errors_of X1) \<and>
     store_of X1 = store_of X0"
  by (simp add: failed_at_def)

lemma executeField_no_value:
  "executeField rv fails ty src p f d = (None, e, l, d') \<Longrightarrow> l = []"
  by (auto simp: executeField.simps split: option.splits prod.splits sum.splits)

lemma executor_failed_at_fields:
  assumes nm: "ty \<noteq> Mutation"
    and dist: "f_name f \<notin> f_name ` set fs"
    and a0: "executeField rv fails ty src p f d = (r0, e0, l0, d)"
    and a1: "executeField rv (also_fails x fails) ty src p f d = (r1, e1, l1, d)"
    and b0: "executeFields rv fails ty src p fs d = (rs0, es0, ls0, d)"
    and b1: "executeFields rv (also_fails x fails) ty src p fs d = (rs1, es1, ls1, d)"
    and ih1: "failed_at x (r0, e0, l0, d) (r1, e1, l1, d)
               (\<lambda>r0 r1. \<forall>q. x = p @ Key (f_name f) # q \<longrightarrow> r1 = map_option (null_at q) r0)"
    and ih2: "failed_at x (rs0, es0, ls0, d) (rs1, es1, ls1, d)
               (\<lambda>k0 k1. \<forall>q. x = p @ q \<longrightarrow> Obj k1 = null_at q (Obj k0))"
  shows "failed_at x
           ((case r0 of None \<Rightarrow> rs0 | Some v \<Rightarrow> (f_name f, v) # rs0), e0 @ es0, l0 @ ls0, d)
           ((case r1 of None \<Rightarrow> rs1 | Some v \<Rightarrow> (f_name f, v) # rs1), e1 @ es1, l1 @ ls1, d)
           (\<lambda>k0 k1. \<forall>q. x = p @ q \<longrightarrow> Obj k1 = null_at q (Obj k0))"
proof -
  let ?k = "Key (f_name f)"
  from executor_confined(2)[of p f rv fails ty src d] a0
  have c1: "confined p (\<lambda>s. s = ?k) e0 l0" by simp
  from executor_confined(1)[of p fs rv fails ty src d] b0
  have c2: "confined p (\<lambda>s. \<exists>g\<in>set fs. s = Key (f_name g)) es0 ls0" by simp
  consider (first) "x \<in> fst ` set l0" | (rest) "x \<notin> fst ` set l0" "x \<in> fst ` set ls0"
    | (neither) "x \<notin> fst ` set l0" "x \<notin> fst ` set ls0"
    by blast
  then show ?thesis
  proof cases
    case first
    from confined_form[OF c1 first] obtain q0 where x: "x = p @ ?k # q0" by blast
    from dist have "\<not> (\<exists>g\<in>set fs. ?k = Key (f_name g))" by auto
    from confined_elsewhere[OF c2 x this]
    have el: "\<forall>e\<in>set es0. \<not> under x e" "x \<notin> fst ` set ls0" by simp_all
    from failed_at_sameD[OF ih2] el(2) have same: "rs1 = rs0" "es1 = es0" "ls1 = ls0" by simp_all
    from failed_at_changedD[OF ih1] first x
    have ch: "r1 = map_option (null_at q0) r0" "settled x e0 e1" by simp_all
    from first a0 executeField_no_value[of rv fails ty src p f d e0 l0 d]
    obtain v0 where v0: "r0 = Some v0" by (cases r0) auto
    show ?thesis
    proof (rule failed_at_changed)
      show "x \<in> fst ` set (log_of ((case r0 of None \<Rightarrow> rs0 | Some v \<Rightarrow> (f_name f, v) # rs0),
                e0 @ es0, l0 @ ls0, d))"
        using first by auto
    next
      show "\<forall>q. x = p @ q \<longrightarrow>
              Obj (value_of ((case r1 of None \<Rightarrow> rs1 | Some v \<Rightarrow> (f_name f, v) # rs1),
                     e1 @ es1, l1 @ ls1, d))
              = null_at q (Obj (value_of ((case r0 of None \<Rightarrow> rs0 | Some v \<Rightarrow> (f_name f, v) # rs0),
                     e0 @ es0, l0 @ ls0, d)))"
        using x v0 ch(1) same(1) by simp
    next
      show "settled x
              (errors_of ((case r0 of None \<Rightarrow> rs0 | Some v \<Rightarrow> (f_name f, v) # rs0),
                 e0 @ es0, l0 @ ls0, d))
              (errors_of ((case r1 of None \<Rightarrow> rs1 | Some v \<Rightarrow> (f_name f, v) # rs1),
                 e1 @ es1, l1 @ ls1, d))"
        using settled_left[OF ch(2) el(1)] same(2) by simp
    qed simp
  next
    case rest
    from confined_form[OF c2 rest(2)] obtain n q0 where
      x: "x = p @ Key n # q0" and n: "n \<in> f_name ` set fs" by auto
    from n dist have ne: "n \<noteq> f_name f" by blast
    then have "\<not> (Key n = ?k)" by simp
    from confined_elsewhere[OF c1 x this] have el: "\<forall>e\<in>set e0. \<not> under x e" by simp
    from failed_at_sameD[OF ih1] rest(1) have same: "r1 = r0" "e1 = e0" "l1 = l0" by simp_all
    from failed_at_changedD[OF ih2] rest(2) x
    have ch: "Obj rs1 = null_at (Key n # q0) (Obj rs0)" "settled x es0 es1" by simp_all
    show ?thesis
    proof (rule failed_at_changed)
      show "x \<in> fst ` set (log_of ((case r0 of None \<Rightarrow> rs0 | Some v \<Rightarrow> (f_name f, v) # rs0),
                e0 @ es0, l0 @ ls0, d))"
        using rest(2) by auto
    next
      show "\<forall>q. x = p @ q \<longrightarrow>
              Obj (value_of ((case r1 of None \<Rightarrow> rs1 | Some v \<Rightarrow> (f_name f, v) # rs1),
                     e1 @ es1, l1 @ ls1, d))
              = null_at q (Obj (value_of ((case r0 of None \<Rightarrow> rs0 | Some v \<Rightarrow> (f_name f, v) # rs0),
                     e0 @ es0, l0 @ ls0, d)))"
        using x ch(1) same(1) ne by (cases r0) auto
    next
      show "settled x
              (errors_of ((case r0 of None \<Rightarrow> rs0 | Some v \<Rightarrow> (f_name f, v) # rs0),
                 e0 @ es0, l0 @ ls0, d))
              (errors_of ((case r1 of None \<Rightarrow> rs1 | Some v \<Rightarrow> (f_name f, v) # rs1),
                 e1 @ es1, l1 @ ls1, d))"
        using settled_right[OF ch(2) el] same(2) by simp
    qed simp
  next
    case neither
    from failed_at_sameD[OF ih1] neither(1) have "r1 = r0" "e1 = e0" "l1 = l0" by simp_all
    moreover from failed_at_sameD[OF ih2] neither(2) have "rs1 = rs0" "es1 = es0" "ls1 = ls0"
      by simp_all
    ultimately show ?thesis using neither by (intro failed_at_same) auto
  qed
qed

lemma failed_at_map:
  "failed_at x (a0, e0, l0, d0) (a1, e1, l1, d1) R \<Longrightarrow>
     (x \<in> fst ` set l0 \<Longrightarrow> R a0 a1 \<Longrightarrow> R' (g a0) (g a1)) \<Longrightarrow>
     failed_at x (g a0, e0, l0, d0) (g a1, e1, l1, d1) R'"
  by (cases "x \<in> fst ` set l0") (simp_all add: failed_at_def)

lemma executor_failed_at_items:
  assumes c1: "confined p (\<lambda>s. s = Idx i) e0 l0"
    and b0: "completeListValue rv fails ty sels p (Suc i) xs d = (cs0, es0, ls0, d)"
    and ih1: "failed_at x (c0, e0, l0, d) (c1, e1, l1, d)
               (\<lambda>v0 v1. \<forall>q. x = p @ Idx i # q \<longrightarrow> v1 = null_at q v0)"
    and ih2: "failed_at x (cs0, es0, ls0, d) (cs1, es1, ls1, d)
               (\<lambda>c0 c1. \<forall>j q. x = p @ Idx j # q \<longrightarrow> c1 = null_at_idx (j - Suc i) q c0)"
  shows "failed_at x (c0 # cs0, e0 @ es0, l0 @ ls0, d) (c1 # cs1, e1 @ es1, l1 @ ls1, d)
           (\<lambda>c0 c1. \<forall>j q. x = p @ Idx j # q \<longrightarrow> c1 = null_at_idx (j - i) q c0)"
proof -
  from executor_confined(4)[of p "Suc i" rv fails ty sels xs d] b0
  have c2: "confined p (\<lambda>s. \<exists>j\<ge>Suc i. s = Idx j) es0 ls0" by simp
  consider (first) "x \<in> fst ` set l0" | (rest) "x \<notin> fst ` set l0" "x \<in> fst ` set ls0"
    | (neither) "x \<notin> fst ` set l0" "x \<notin> fst ` set ls0"
    by blast
  then show ?thesis
  proof cases
    case first
    from confined_form[OF c1 first] obtain q0 where x: "x = p @ Idx i # q0" by blast
    have "\<not> (\<exists>j\<ge>Suc i. Idx i = Idx j)" by simp
    from confined_elsewhere[OF c2 x this]
    have el: "\<forall>e\<in>set es0. \<not> under x e" "x \<notin> fst ` set ls0" by simp_all
    from failed_at_sameD[OF ih2] el(2) have same: "cs1 = cs0" "es1 = es0" "ls1 = ls0" by simp_all
    from failed_at_changedD[OF ih1] first x
    have ch: "c1 = null_at q0 c0" "settled x e0 e1" by simp_all
    show ?thesis
    proof (rule failed_at_changed)
      show "x \<in> fst ` set (log_of (c0 # cs0, e0 @ es0, l0 @ ls0, d))"
        using first by auto
    next
      show "\<forall>j q. x = p @ Idx j # q \<longrightarrow>
              value_of (c1 # cs1, e1 @ es1, l1 @ ls1, d)
              = null_at_idx (j - i) q (value_of (c0 # cs0, e0 @ es0, l0 @ ls0, d))"
        using x ch(1) same(1) by simp
    next
      show "settled x (errors_of (c0 # cs0, e0 @ es0, l0 @ ls0, d))
              (errors_of (c1 # cs1, e1 @ es1, l1 @ ls1, d))"
        using settled_left[OF ch(2) el(1)] same(2) by simp
    qed simp
  next
    case rest
    from confined_form[OF c2 rest(2)] obtain j q0 where
      x: "x = p @ Idx j # q0" and j: "Suc i \<le> j" by auto
    then have "\<not> (Idx j = Idx i)" by simp
    from confined_elsewhere[OF c1 x this] have el: "\<forall>e\<in>set e0. \<not> under x e" by simp
    from failed_at_sameD[OF ih1] rest(1) have same: "c1 = c0" "e1 = e0" "l1 = l0" by simp_all
    from failed_at_changedD[OF ih2] rest(2) x
    have ch: "cs1 = null_at_idx (j - Suc i) q0 cs0" "settled x es0 es1" by simp_all
    from j have ji: "j - i = Suc (j - Suc i)" by simp
    show ?thesis
    proof (rule failed_at_changed)
      show "x \<in> fst ` set (log_of (c0 # cs0, e0 @ es0, l0 @ ls0, d))"
        using rest(2) by auto
    next
      show "\<forall>j q. x = p @ Idx j # q \<longrightarrow>
              value_of (c1 # cs1, e1 @ es1, l1 @ ls1, d)
              = null_at_idx (j - i) q (value_of (c0 # cs0, e0 @ es0, l0 @ ls0, d))"
        using x ch(1) same(1) ji by simp
    next
      show "settled x (errors_of (c0 # cs0, e0 @ es0, l0 @ ls0, d))
              (errors_of (c1 # cs1, e1 @ es1, l1 @ ls1, d))"
        using settled_right[OF ch(2) el] same(2) by simp
    qed simp
  next
    case neither
    from failed_at_sameD[OF ih1] neither(1) have "c1 = c0" "e1 = e0" "l1 = l0" by simp_all
    moreover from failed_at_sameD[OF ih2] neither(2) have "cs1 = cs0" "es1 = es0" "ls1 = ls0"
      by simp_all
    ultimately show ?thesis using neither by (intro failed_at_same) auto
  qed
qed

lemma executor_failed_at_value:
  assumes ih1: "\<And>ty. \<not> (v = Null \<or> v = Undefined) \<Longrightarrow> ft = One ty \<Longrightarrow>
        failed_at x (executeFields rv fails ty v p sels d)
          (executeFields rv (also_fails x fails) ty v p sels d)
          (\<lambda>k0 k1. \<forall>q. x = p @ q \<longrightarrow> Obj k1 = null_at q (Obj k0))"
    and ih2: "\<And>ty items. \<not> (v = Null \<or> v = Undefined) \<Longrightarrow> ft = Many ty \<Longrightarrow>
        v = Arr items \<Longrightarrow>
        failed_at x (completeListValue rv fails ty sels p 0 items d)
          (completeListValue rv (also_fails x fails) ty sels p 0 items d)
          (\<lambda>c0 c1. \<forall>j q. x = p @ Idx j # q \<longrightarrow> c1 = null_at_idx (j - 0) q c0)"
  shows "failed_at x (completeValue rv fails ft sels p v d)
           (completeValue rv (also_fails x fails) ft sels p v d)
           (\<lambda>c0 c1. \<forall>q. x = p @ q \<longrightarrow> c1 = map_sum id (null_at q) c0)"
proof (cases "v = Null \<or> v = Undefined")
  case True
  then show ?thesis by (intro failed_at_same) (auto simp: completeValue.simps)
next
  case nn: False
  show ?thesis
  proof (cases ft)
    case Leaf
    with nn show ?thesis by (intro failed_at_same) (simp_all add: completeValue.simps)
  next
    case (One ty)
    obtain k0 e0 l0 d0 where a0: "executeFields rv fails ty v p sels d = (k0, e0, l0, d0)"
      by (metis prod_cases4)
    obtain k1 e1 l1 d1 where a1:
      "executeFields rv (also_fails x fails) ty v p sels d = (k1, e1, l1, d1)"
      by (metis prod_cases4)
    from ih1[OF nn One] have "failed_at x (k0, e0, l0, d0) (k1, e1, l1, d1)
        (\<lambda>k0 k1. \<forall>q. x = p @ q \<longrightarrow> Obj k1 = null_at q (Obj k0))"
      by (simp only: a0 a1)
    then have "failed_at x (Inr (Obj k0), e0, l0, d0) (Inr (Obj k1), e1, l1, d1)
        (\<lambda>c0 c1. \<forall>q. x = p @ q \<longrightarrow> c1 = map_sum id (null_at q) c0)"
      by (rule failed_at_map) simp
    with nn One a0 a1 show ?thesis by (simp add: completeValue.simps)
  next
    case (Many ty)
    show ?thesis
    proof (cases v)
      case (Arr items)
      obtain c0 e0 l0 d0 where a0:
        "completeListValue rv fails ty sels p 0 items d = (c0, e0, l0, d0)"
        by (metis prod_cases4)
      obtain c1 e1 l1 d1 where a1:
        "completeListValue rv (also_fails x fails) ty sels p 0 items d = (c1, e1, l1, d1)"
        by (metis prod_cases4)
      from executor_confined(4)[of p 0 rv fails ty sels items d] a0
      have c: "confined p (\<lambda>s. \<exists>j\<ge>0. s = Idx j) e0 l0" by simp
      from ih2[OF nn Many Arr] have "failed_at x (c0, e0, l0, d0) (c1, e1, l1, d1)
          (\<lambda>c0 c1. \<forall>j q. x = p @ Idx j # q \<longrightarrow> c1 = null_at_idx (j - 0) q c0)"
        by (simp only: a0 a1)
      then have "failed_at x (Inr (Arr c0), e0, l0, d0) (Inr (Arr c1), e1, l1, d1)
          (\<lambda>c0 c1. \<forall>q. x = p @ q \<longrightarrow> c1 = map_sum id (null_at q) c0)"
      proof (rule failed_at_map)
        assume "x \<in> fst ` set l0"
          and r: "\<forall>j q. x = p @ Idx j # q \<longrightarrow> c1 = null_at_idx (j - 0) q c0"
        from confined_form[OF c this(1)] obtain j r0 where x: "x = p @ Idx j # r0" by auto
        with r have "c1 = null_at_idx j r0 c0" by simp
        with x show "\<forall>q. x = p @ q \<longrightarrow> Inr (Arr c1) = map_sum id (null_at q) (Inr (Arr c0))"
          by simp
      qed
      with nn Many Arr a0 a1 show ?thesis by (simp add: completeValue.simps)
    qed (use Many nn in \<open>simp_all add: completeValue.simps failed_at_def\<close>)
  qed
qed

lemma same_result_eq: "same_result True X Y \<Longrightarrow> Y = X"
  by (simp add: same_result_def)

lemma executor_failed_at_field:
  assumes nf: "\<not> fails x" and nm: "ty \<noteq> Mutation"
    and ft: "fieldType rv ty (f_name f) = Some ft"
    and ih: "\<And>v. fst (resolve rv ty (f_name f) fails (p @ [Key (f_name f)]) src (f_args f) d)
                 = Inr v \<Longrightarrow>
        failed_at x (completeValue rv fails ft (f_sels f) (p @ [Key (f_name f)]) v d)
          (completeValue rv (also_fails x fails) ft (f_sels f) (p @ [Key (f_name f)]) v d)
          (\<lambda>c0 c1. \<forall>q. x = (p @ [Key (f_name f)]) @ q \<longrightarrow> c1 = map_sum id (null_at q) c0)"
  shows "failed_at x (executeField rv fails ty src p f d)
           (executeField rv (also_fails x fails) ty src p f d)
           (\<lambda>r0 r1. \<forall>q. x = p @ Key (f_name f) # q \<longrightarrow> r1 = map_option (null_at q) r0)"
proof -
  let ?k = "Key (f_name f)"
  let ?pth = "p @ [?k]"
  let ?G = "also_fails x fails"
  obtain y l1 d1 where a: "resolve rv ty (f_name f) fails ?pth src (f_args f) d = (y, l1, d1)"
    by (metis prod_cases3)
  from resolve_frame[OF nm a] have d1: "d1 = d" by simp
  obtain r0 e0 l0 d0 where X0: "executeField rv fails ty src p f d = (r0, e0, l0, d0)"
    by (metis prod_cases4)
  from executor_frame(2)[OF nm X0] have d0: "d0 = d" by simp
  from executor_confined(2)[of p f rv fails ty src d] X0
  have c: "confined p (\<lambda>s. s = ?k) e0 l0" by simp
  from fieldType_not_Mutation[OF ft] have ftm: "ft \<noteq> One Mutation" "ft \<noteq> Many Mutation"
    by simp_all
  from resolve_log[of rv ty "f_name f" fails ?pth src "f_args f" d] a
  have l1: "l1 = [] \<or> (\<exists>c. l1 = [(?pth, c)])" by simp
  show ?thesis
  proof (cases "?pth = x")
    case here: True
    show ?thesis
    proof (cases "l1 = []")
      case True
      with a have rG: "resolve rv ty (f_name f) ?G ?pth src (f_args f) d = (y, l1, d1)"
        using resolve_nolog[of rv ty "f_name f" fails ?pth src "f_args f" d ?G] by simp
      have cvG: "completeValue rv ?G ft (f_sels f) ?pth v d'
          = completeValue rv fails ft (f_sels f) ?pth v d'" for v d'
      proof -
        from here have "\<forall>r. r \<noteq> [] \<longrightarrow> x \<noteq> ?pth @ r" by auto
        from agree_unless_below[OF this] have "agree fails ?pth ?G ?pth" .
        from executor_agree(3)[of fails ?pth rv ft "f_sels f" v d', rule_format, OF this]
        show ?thesis by (simp add: same_result_def)
      qed
      have same: "executeField rv ?G ty src p f d = executeField rv fails ty src p f d"
        by (cases y) (simp_all add: executeField.simps ft rG a cvG)
      have "x \<notin> fst ` set l0"
      proof (cases y)
        case (Inl m)
        with ft a True X0 show ?thesis by (simp add: executeField.simps)
      next
        case (Inr v)
        obtain c0 e2 l2 d2 where b:
          "completeValue rv fails ft (f_sels f) ?pth v d1 = (c0, e2, l2, d2)"
          by (metis prod_cases4)
        from executor_confined(3)[of ?pth rv fails ft "f_sels f" v d1] b
        have "confined ?pth (\<lambda>s. True) e2 l2" by simp
        from confined_strict[OF this] here have "x \<notin> fst ` set l2" by simp
        moreover from ft a True Inr b X0 have "l0 = l2"
          by (cases c0) (simp_all add: executeField.simps)
        ultimately show ?thesis by simp
      qed
      with same X0 show ?thesis by (intro failed_at_same) simp_all
    next
      case False
      with l1 obtain c0 where l1c: "l1 = [(?pth, c0)]" by blast
      from False a have "fst (snd (resolve rv ty (f_name f) fails x src (f_args f) d)) \<noteq> []"
        using here by simp
      from resolve_failed[OF nm this] a here
      have "resolve rv ty (f_name f) ?G ?pth src (f_args f) d = (Inl ''storage failure'', l1, d)"
        by simp
      with ft here have X1: "executeField rv ?G ty src p f d = (Some Null, [failure x], l1, d)"
        by (simp add: executeField.simps failure_def)
      from ft a l1c X0 have in0: "x \<in> fst ` set l0"
        using here by (auto simp: executeField.simps split: sum.splits prod.splits)
      from in0 X0 executeField_no_value[of rv fails ty src p f d e0 l0 d0]
      obtain v0 where v0: "r0 = Some v0" by (cases r0) auto
      from confined_all_under[OF c] here have "\<forall>e\<in>set e0. under x e" by simp
      from settled_here[OF this] have st: "settled x e0 [failure x]" .
      show ?thesis
        unfolding X0 X1
      proof (rule failed_at_changed)
        show "x \<in> fst ` set (log_of (r0, e0, l0, d0))" using in0 by simp
      next
        show "\<forall>q. x = p @ Key (f_name f) # q \<longrightarrow>
                value_of (Some Null, [failure x], l1, d)
                = map_option (null_at q) (value_of (r0, e0, l0, d0))"
          using here v0 by auto
      next
        show "settled x (errors_of (r0, e0, l0, d0)) (errors_of (Some Null, [failure x], l1, d))"
          using st by simp
      next
        show "store_of (Some Null, [failure x], l1, d) = store_of (r0, e0, l0, d0)"
          using d0 by simp
      qed
    qed
  next
    case away: False
    from resolve_unfailed[OF away] a
    have a': "resolve rv ty (f_name f) ?G ?pth src (f_args f) d = (y, l1, d1)" by simp
    from l1 away have nl1: "x \<notin> fst ` set l1" by auto
    show ?thesis
    proof (cases y)
      case (Inl m)
      with ft a a' nl1 show ?thesis
        by (intro failed_at_same) (simp_all add: executeField.simps)
    next
      case (Inr v)
      obtain c0 e2 l2 d2 where b0:
        "completeValue rv fails ft (f_sels f) ?pth v d = (c0, e2, l2, d2)"
        by (metis prod_cases4)
      obtain c1 e2' l2' d2' where b1:
        "completeValue rv ?G ft (f_sels f) ?pth v d = (c1, e2', l2', d2')"
        by (metis prod_cases4)
      from executor_frame(3)[OF ftm b0] have d2: "d2 = d" by simp
      from executor_frame(3)[OF ftm b1] have d2': "d2' = d" by simp
      from a Inr have "fst (resolve rv ty (f_name f) fails ?pth src (f_args f) d) = Inr v"
        by simp
      from ih[OF this] have ihv: "failed_at x (c0, e2, l2, d2) (c1, e2', l2', d2')
          (\<lambda>c0 c1. \<forall>q. x = ?pth @ q \<longrightarrow> c1 = map_sum id (null_at q) c0)"
        by (simp only: b0 b1)
      from executor_confined(3)[of ?pth rv fails ft "f_sels f" v d] b0
      have c2: "confined ?pth (\<lambda>s. True) e2 l2" by simp
      have X0': "executeField rv fails ty src p f d =
          (case c0 of Inl m \<Rightarrow> (Some Null, e2 @ [GqlError m (Some ?pth)], l1 @ l2, d)
           | Inr c \<Rightarrow> (Some c, e2, l1 @ l2, d))"
        using ft a Inr b0 d1 d2 by (cases c0) (simp_all add: executeField.simps)
      have X1': "executeField rv ?G ty src p f d =
          (case c1 of Inl m \<Rightarrow> (Some Null, e2' @ [GqlError m (Some ?pth)], l1 @ l2', d)
           | Inr c \<Rightarrow> (Some c, e2', l1 @ l2', d))"
        using ft a' Inr b1 d1 d2' by (cases c1) (simp_all add: executeField.simps)
      show ?thesis
      proof (cases "x \<in> fst ` set l2")
        case False
        from failed_at_sameD[OF ihv] False have "c1 = c0" "e2' = e2" "l2' = l2" by simp_all
        with X0' X1' have "executeField rv ?G ty src p f d = executeField rv fails ty src p f d"
          by (cases c0) simp_all
        moreover from False nl1 X0' have "x \<notin> fst ` set (log_of (executeField rv fails ty src p f d))"
          by (cases c0) auto
        ultimately show ?thesis by (intro failed_at_same) simp_all
      next
        case True
        from confined_form[OF c2 True] obtain s r where x: "x = ?pth @ s # r" by blast
        from failed_at_changedD[OF ihv] True x
        have ch: "c1 = map_sum id (null_at (s # r)) c0" "settled x e2 e2'" by simp_all
        have nu: "\<not> under x (GqlError m (Some ?pth))" for m
          using not_under_above[of ?pth s r m] x by simp
        show ?thesis
        proof (cases c0)
          case (Inl m)
          with ch have c1: "c1 = Inl m" by simp
          from nu[of m] have "\<forall>e\<in>set [GqlError m (Some ?pth)]. \<not> under x e" by simp
          from settled_left[OF ch(2) this]
          have st: "settled x (e2 @ [GqlError m (Some ?pth)]) (e2' @ [GqlError m (Some ?pth)])" .
          show ?thesis
            unfolding X0' X1' Inl c1
            by (rule failed_at_changed) (use True st in auto)
        next
          case (Inr c)
          with ch have c1: "c1 = Inr (null_at (s # r) c)" by simp
          show ?thesis
            unfolding X0' X1' Inr c1
            by (rule failed_at_changed) (use True ch(2) x in auto)
        qed
      qed
    qed
  qed
qed

lemma distinctNames_sels:
  "distinctNames f \<Longrightarrow> distinct (map f_name (f_sels f)) \<and> list_all distinctNames (f_sels f)"
  by (cases f) simp

lemma executor_failed_at:
  "\<not> fails x \<longrightarrow> ty \<noteq> Mutation \<longrightarrow> distinct (map f_name fs) \<longrightarrow> list_all distinctNames fs \<longrightarrow>
     failed_at x (executeFields rv fails ty src p fs d)
       (executeFields rv (also_fails x fails) ty src p fs d)
       (\<lambda>k0 k1. \<forall>q. x = p @ q \<longrightarrow> Obj k1 = null_at q (Obj k0))"
  "\<not> fails x \<longrightarrow> ty \<noteq> Mutation \<longrightarrow> distinctNames f \<longrightarrow>
     failed_at x (executeField rv fails ty src p f d)
       (executeField rv (also_fails x fails) ty src p f d)
       (\<lambda>r0 r1. \<forall>q. x = p @ Key (f_name f) # q \<longrightarrow> r1 = map_option (null_at q) r0)"
  "\<not> fails x \<longrightarrow> ft \<noteq> One Mutation \<longrightarrow> ft \<noteq> Many Mutation \<longrightarrow>
   distinct (map f_name sels) \<longrightarrow> list_all distinctNames sels \<longrightarrow>
     failed_at x (completeValue rv fails ft sels p v d)
       (completeValue rv (also_fails x fails) ft sels p v d)
       (\<lambda>c0 c1. \<forall>q. x = p @ q \<longrightarrow> c1 = map_sum id (null_at q) c0)"
  "\<not> fails x \<longrightarrow> ty \<noteq> Mutation \<longrightarrow> distinct (map f_name sels) \<longrightarrow>
   list_all distinctNames sels \<longrightarrow>
     failed_at x (completeListValue rv fails ty sels p i xs d)
       (completeListValue rv (also_fails x fails) ty sels p i xs d)
       (\<lambda>c0 c1. \<forall>j q. x = p @ Idx j # q \<longrightarrow> c1 = null_at_idx (j - i) q c0)"
proof (induction rv fails ty src p fs d and rv fails ty src p f d and rv fails ft sels p v d
    and rv fails ty sels p i xs d
    rule: executeFields_executeField_completeValue_completeListValue.induct)
  case (1 rv fails ty src p d)
  show ?case by (intro impI failed_at_same) simp_all
next
  case (2 rv fails ty src p f fs d)
  let ?G = "also_fails x fails"
  show ?case
  proof (intro impI)
    assume nf: "\<not> fails x" and nm: "ty \<noteq> Mutation"
      and dist: "distinct (map f_name (f # fs))" and dn: "list_all distinctNames (f # fs)"
    obtain r0 e0 l0 d0 where a0: "executeField rv fails ty src p f d = (r0, e0, l0, d0)"
      by (metis prod_cases4)
    obtain r1 e1 l1 d1 where a1: "executeField rv ?G ty src p f d = (r1, e1, l1, d1)"
      by (metis prod_cases4)
    from executor_frame(2)[OF nm a0] have d0: "d0 = d" by simp
    from executor_frame(2)[OF nm a1] have d1: "d1 = d" by simp
    obtain rs0 es0 ls0 d2 where b0: "executeFields rv fails ty src p fs d0 = (rs0, es0, ls0, d2)"
      by (metis prod_cases4)
    obtain rs1 es1 ls1 d3 where b1: "executeFields rv ?G ty src p fs d = (rs1, es1, ls1, d3)"
      by (metis prod_cases4)
    from executor_frame(1)[OF nm b0] d0 have d2: "d2 = d" by simp
    from executor_frame(1)[OF nm b1] have d3: "d3 = d" by simp
    from "2.IH"(1) nf nm dn
    have "failed_at x (executeField rv fails ty src p f d) (executeField rv ?G ty src p f d)
        (\<lambda>r0 r1. \<forall>q. x = p @ Key (f_name f) # q \<longrightarrow> r1 = map_option (null_at q) r0)"
      by simp
    then have ih1: "failed_at x (r0, e0, l0, d) (r1, e1, l1, d)
        (\<lambda>r0 r1. \<forall>q. x = p @ Key (f_name f) # q \<longrightarrow> r1 = map_option (null_at q) r0)"
      by (simp only: a0 a1 d0 d1)
    from "2.IH"(2)[OF a0[symmetric] refl refl] nf nm dist dn
    have "failed_at x (executeFields rv fails ty src p fs d0) (executeFields rv ?G ty src p fs d0)
        (\<lambda>k0 k1. \<forall>q. x = p @ q \<longrightarrow> Obj k1 = null_at q (Obj k0))"
      by simp
    then have ih2: "failed_at x (rs0, es0, ls0, d) (rs1, es1, ls1, d)
        (\<lambda>k0 k1. \<forall>q. x = p @ q \<longrightarrow> Obj k1 = null_at q (Obj k0))"
      using b0 b1 d0 d2 d3 by simp
    from dist have nin: "f_name f \<notin> f_name ` set fs" by simp
    from executor_failed_at_fields[OF nm nin a0[unfolded d0] a1[unfolded d1]
        b0[unfolded d0 d2] b1[unfolded d3] ih1 ih2]
    show "failed_at x (executeFields rv fails ty src p (f # fs) d)
            (executeFields rv ?G ty src p (f # fs) d)
            (\<lambda>k0 k1. \<forall>q. x = p @ q \<longrightarrow> Obj k1 = null_at q (Obj k0))"
      using a0 a1 b0 b1 d0 d1 d2 d3 by simp
  qed
next
  case (3 rv fails ty src p f d)
  let ?G = "also_fails x fails"
  show ?case
  proof (intro impI)
    assume nf: "\<not> fails x" and nm: "ty \<noteq> Mutation" and dn: "distinctNames f"
    show "failed_at x (executeField rv fails ty src p f d) (executeField rv ?G ty src p f d)
            (\<lambda>r0 r1. \<forall>q. x = p @ Key (f_name f) # q \<longrightarrow> r1 = map_option (null_at q) r0)"
    proof (cases "fieldType rv ty (f_name f)")
      case None
      then show ?thesis by (intro failed_at_same) (simp_all add: executeField.simps)
    next
      case (Some ft)
      from fieldType_not_Mutation[OF Some] have ftm: "ft \<noteq> One Mutation" "ft \<noteq> Many Mutation"
        by simp_all
      show ?thesis
      proof (rule executor_failed_at_field[where fails=fails and x=x and ty=ty and rv=rv
            and f=f and ft=ft and p=p and src=src and d=d, OF nf nm Some])
        fix v
        assume r: "fst (resolve rv ty (f_name f) fails (p @ [Key (f_name f)]) src (f_args f) d)
                     = Inr v"
        obtain y l1 d1 where a:
          "resolve rv ty (f_name f) fails (p @ [Key (f_name f)]) src (f_args f) d = (y, l1, d1)"
          by (metis prod_cases3)
        from resolve_frame[OF nm a] have d1: "d1 = d" by simp
        from r a have y: "y = Inr v" by simp
        note ih = "3.IH"[OF Some a[symmetric] y refl, unfolded d1]
        from ih nf ftm distinctNames_sels[OF dn]
        show "failed_at x (completeValue rv fails ft (f_sels f) (p @ [Key (f_name f)]) v d)
                (completeValue rv ?G ft (f_sels f) (p @ [Key (f_name f)]) v d)
                (\<lambda>c0 c1. \<forall>q. x = (p @ [Key (f_name f)]) @ q \<longrightarrow>
                   c1 = map_sum id (null_at q) c0)"
          by blast
      qed
    qed
  qed
next
  case (4 rv fails ft sels p v d)
  let ?G = "also_fails x fails"
  show ?case
  proof (intro impI)
    assume nf: "\<not> fails x" and ftm: "ft \<noteq> One Mutation" "ft \<noteq> Many Mutation"
      and dist: "distinct (map f_name sels)" and dn: "list_all distinctNames sels"
    show "failed_at x (completeValue rv fails ft sels p v d) (completeValue rv ?G ft sels p v d)
            (\<lambda>c0 c1. \<forall>q. x = p @ q \<longrightarrow> c1 = map_sum id (null_at q) c0)"
    proof (rule executor_failed_at_value)
      fix ty
      assume nn: "\<not> (v = Null \<or> v = Undefined)" and One: "ft = One ty"
      with ftm have "ty \<noteq> Mutation" by simp
      with "4.IH"(1)[OF nn One] nf dist dn
      show "failed_at x (executeFields rv fails ty v p sels d)
              (executeFields rv ?G ty v p sels d)
              (\<lambda>k0 k1. \<forall>q. x = p @ q \<longrightarrow> Obj k1 = null_at q (Obj k0))"
        by simp
    next
      fix ty items
      assume nn: "\<not> (v = Null \<or> v = Undefined)" and Many: "ft = Many ty" and Arr: "v = Arr items"
      with ftm have "ty \<noteq> Mutation" by simp
      with "4.IH"(2)[OF nn Many Arr] nf dist dn
      show "failed_at x (completeListValue rv fails ty sels p 0 items d)
              (completeListValue rv ?G ty sels p 0 items d)
              (\<lambda>c0 c1. \<forall>j q. x = p @ Idx j # q \<longrightarrow> c1 = null_at_idx (j - 0) q c0)"
        by simp
    qed
  qed
next
  case (5 rv fails ty sels p i d)
  show ?case by (intro impI failed_at_same) simp_all
next
  case (6 rv fails ty sels p i it xs d)
  let ?G = "also_fails x fails"
  let ?item = "\<lambda>fl. (if it = Null \<or> it = Undefined then (Null, [], [], d)
      else (case executeFields rv fl ty it (p @ [Idx i]) sels d of
              (kvs, e, l, d') \<Rightarrow> (Obj kvs, e, l, d')))"
  show ?case
  proof (intro impI)
    assume nf: "\<not> fails x" and nm: "ty \<noteq> Mutation"
      and dist: "distinct (map f_name sels)" and dn: "list_all distinctNames sels"
    obtain c0 e0 l0 d0 where a0: "?item fails = (c0, e0, l0, d0)"
      by (metis prod_cases4)
    obtain c1 e1 l1 d1 where a1: "?item ?G = (c1, e1, l1, d1)"
      by (metis prod_cases4)
    have item: "d0 = d \<and> d1 = d \<and> confined p (\<lambda>s. s = Idx i) e0 l0 \<and>
        failed_at x (c0, e0, l0, d) (c1, e1, l1, d)
          (\<lambda>v0 v1. \<forall>q. x = p @ Idx i # q \<longrightarrow> v1 = null_at q v0)"
    proof (cases "it = Null \<or> it = Undefined")
      case True
      with a0 a1 show ?thesis by (auto intro: failed_at_same)
    next
      case False
      obtain k0 f0 m0 s0 where b0:
        "executeFields rv fails ty it (p @ [Idx i]) sels d = (k0, f0, m0, s0)"
        by (metis prod_cases4)
      obtain k1 f1 m1 s1 where b1:
        "executeFields rv ?G ty it (p @ [Idx i]) sels d = (k1, f1, m1, s1)"
        by (metis prod_cases4)
      from executor_frame(1)[OF nm b0] have s0: "s0 = d" by simp
      from executor_frame(1)[OF nm b1] have s1: "s1 = d" by simp
      from executor_confined(1)[of "p @ [Idx i]" sels rv fails ty it d] b0
      have "confined (p @ [Idx i]) (\<lambda>s. \<exists>f\<in>set sels. s = Key (f_name f)) f0 m0" by simp
      then have cf: "confined p (\<lambda>s. s = Idx i) f0 m0" by (rule confined_step)
      from "6.IH"(1)[OF False] nf nm dist dn
      have "failed_at x (executeFields rv fails ty it (p @ [Idx i]) sels d)
          (executeFields rv ?G ty it (p @ [Idx i]) sels d)
          (\<lambda>k0 k1. \<forall>q. x = (p @ [Idx i]) @ q \<longrightarrow> Obj k1 = null_at q (Obj k0))"
        by simp
      then have "failed_at x (k0, f0, m0, d) (k1, f1, m1, d)
          (\<lambda>k0 k1. \<forall>q. x = (p @ [Idx i]) @ q \<longrightarrow> Obj k1 = null_at q (Obj k0))"
        by (simp only: b0 b1 s0 s1)
      then have "failed_at x (Obj k0, f0, m0, d) (Obj k1, f1, m1, d)
          (\<lambda>v0 v1. \<forall>q. x = p @ Idx i # q \<longrightarrow> v1 = null_at q v0)"
        by (rule failed_at_map) simp
      with False a0 a1 b0 b1 s0 s1 cf show ?thesis by auto
    qed
    then have d0: "d0 = d" and d1: "d1 = d" and cf: "confined p (\<lambda>s. s = Idx i) e0 l0"
      and ih1: "failed_at x (c0, e0, l0, d) (c1, e1, l1, d)
          (\<lambda>v0 v1. \<forall>q. x = p @ Idx i # q \<longrightarrow> v1 = null_at q v0)"
      by simp_all
    obtain cs0 es0 ls0 d2 where b0:
      "completeListValue rv fails ty sels p (Suc i) xs d0 = (cs0, es0, ls0, d2)"
      by (metis prod_cases4)
    obtain cs1 es1 ls1 d3 where b1:
      "completeListValue rv ?G ty sels p (Suc i) xs d = (cs1, es1, ls1, d3)"
      by (metis prod_cases4)
    from executor_frame(4)[OF nm b0] d0 have d2: "d2 = d" by simp
    from executor_frame(4)[OF nm b1] have d3: "d3 = d" by simp
    from "6.IH"(2)[OF a0[symmetric] refl refl] nf nm dist dn
    have "failed_at x (completeListValue rv fails ty sels p (Suc i) xs d0)
        (completeListValue rv ?G ty sels p (Suc i) xs d0)
        (\<lambda>c0 c1. \<forall>j q. x = p @ Idx j # q \<longrightarrow> c1 = null_at_idx (j - Suc i) q c0)"
      by simp
    then have ih2: "failed_at x (cs0, es0, ls0, d) (cs1, es1, ls1, d)
        (\<lambda>c0 c1. \<forall>j q. x = p @ Idx j # q \<longrightarrow> c1 = null_at_idx (j - Suc i) q c0)"
      using b0 b1 d0 d2 d3 by simp
    from executor_failed_at_items[OF cf b0[unfolded d0 d2] ih1 ih2]
    show "failed_at x (completeListValue rv fails ty sels p i (it # xs) d)
            (completeListValue rv ?G ty sels p i (it # xs) d)
            (\<lambda>c0 c1. \<forall>j q. x = p @ Idx j # q \<longrightarrow> c1 = null_at_idx (j - i) q c0)"
      using a0 a1 b0 b1 d0 d1 d2 d3 by simp
  qed
qed

lemma fails_at_also: "fails_at x = also_fails x nothing_fails"
  by (auto simp: fails_at_def also_fails_def nothing_fails_def fun_eq_iff)

lemma route_executes:
  assumes "fetches_of (route rv fl (Parsed (QueryOp sels)) d) \<noteq> []"
  shows "route rv fl' (Parsed (QueryOp sels)) d =
           (Reply \<lparr>doc = Some (Obj (value_of
                      (executeFields rv fl' Query Undefined [] (collectFields sels) d))),
                   errors = errors_of
                      (executeFields rv fl' Query Undefined [] (collectFields sels) d)\<rparr>,
            log_of (executeFields rv fl' Query Undefined [] (collectFields sels) d),
            store_of (executeFields rv fl' Query Undefined [] (collectFields sels) d))"
proof -
  let ?fs = "collectFields sels"
  have h: "handler rv fl'' (Parsed (QueryOp sels)) d =
      (if validate rv (QueryOp sels) = []
       then (Reply \<lparr>doc = Some (Obj (value_of (executeFields rv fl'' Query Undefined [] ?fs d))),
                   errors = errors_of (executeFields rv fl'' Query Undefined [] ?fs d)\<rparr>,
            log_of (executeFields rv fl'' Query Undefined [] ?fs d),
            store_of (executeFields rv fl'' Query Undefined [] ?fs d))
       else (Reply \<lparr>doc = None, errors = map (\<lambda>m. GqlError m None) (validate rv (QueryOp sels))\<rparr>,
             [], d))" for fl''
    by (auto simp: handler_def graphql_def execute_def value_of_def errors_of_def log_of_def
        store_of_def split: list.splits prod.splits)
  have pn: "rv = Part001 \<longrightarrow> preHandler (Parsed (QueryOp sels)) = Inr None"
  proof (rule ccontr)
    assume "\<not> (rv = Part001 \<longrightarrow> preHandler (Parsed (QueryOp sels)) = Inr None)"
    then have "fetches_of (route rv fl (Parsed (QueryOp sels)) d) = []"
      by (auto simp: route_def fetches_of_def split: sum.splits option.splits)
    with assms show False by simp
  qed
  then have rh: "route rv fl'' (Parsed (QueryOp sels)) d = handler rv fl'' (Parsed (QueryOp sels)) d"
    for fl''
    by (auto simp: route_def)
  have v: "validate rv (QueryOp sels) = []"
  proof (rule ccontr)
    assume "validate rv (QueryOp sels) \<noteq> []"
    then have "fetches_of (handler rv fl (Parsed (QueryOp sels)) d) = []"
      by (simp add: h fetches_of_def)
    with assms rh[of fl] show False by simp
  qed
  from v h[of fl'] rh[of fl'] show ?thesis by simp
qed

text \<open>
  C3. Take a query that names each field once in every selection set, and a fetch that
  the request issues when the storage collaborator fails nothing, at the path \<open>x\<close> of
  the field whose resolver issues it. When the collaborator fails exactly that fetch,
  the route still replies, and the document is the document of the run without
  failure with null put at \<open>x\<close>: every other field, sibling or not, keeps its value.
  The error list has exactly one entry at or under \<open>x\<close>, the failure at \<open>x\<close>, and its
  entries elsewhere are those of the run without failure, in the same order.
\<close>

theorem one_failed_fetch_nulls_one_path:
  assumes issued: "x \<in> fst ` set (fetches_of (route rv nothing_fails (Parsed (QueryOp sels)) d))"
    and dk: "distinctKeys (QueryOp sels)"
    and r0: "reply_of (route rv nothing_fails (Parsed (QueryOp sels)) d) = Reply r0"
  shows "\<exists>r1. reply_of (route rv (fails_at x) (Parsed (QueryOp sels)) d) = Reply r1 \<and>
           doc r1 = map_option (null_at x) (doc r0) \<and>
           filter (under x) (errors r1) = [failure x] \<and>
           filter (\<lambda>e. \<not> under x e) (errors r1) = filter (\<lambda>e. \<not> under x e) (errors r0)"
proof -
  let ?X0 = "executeFields rv nothing_fails Query Undefined [] (collectFields sels) d"
  let ?X1 = "executeFields rv (fails_at x) Query Undefined [] (collectFields sels) d"
  from issued have ne: "fetches_of (route rv nothing_fails (Parsed (QueryOp sels)) d) \<noteq> []"
    by auto
  note e0 = route_executes[OF ne, of nothing_fails]
  note e1 = route_executes[OF ne, of "fails_at x"]
  from issued e0 have inl: "x \<in> fst ` set (log_of ?X0)" by (simp add: fetches_of_def)
  from dk have dist: "distinct (map f_name (collectFields sels))"
    "list_all distinctNames (collectFields sels)"
    by (simp_all add: distinctKeys_def selections_def)
  have nf: "\<not> nothing_fails x" by (simp add: nothing_fails_def)
  from executor_failed_at(1)[of nothing_fails x Query "collectFields sels" rv Undefined "[]" d] nf dist
  have "failed_at x ?X0 ?X1 (\<lambda>k0 k1. \<forall>q. x = [] @ q \<longrightarrow> Obj k1 = null_at q (Obj k0))"
    by (simp add: fails_at_also)
  from failed_at_changedD[OF this inl]
  have ch: "Obj (value_of ?X1) = null_at x (Obj (value_of ?X0))"
    "settled x (errors_of ?X0) (errors_of ?X1)" by simp_all
  from r0 e0 have r0': "r0 = \<lparr>doc = Some (Obj (value_of ?X0)), errors = errors_of ?X0\<rparr>"
    by (simp add: reply_of_def)
  show ?thesis
  proof (intro exI conjI)
    show "reply_of (route rv (fails_at x) (Parsed (QueryOp sels)) d)
            = Reply \<lparr>doc = Some (Obj (value_of ?X1)), errors = errors_of ?X1\<rparr>"
      using e1 by (simp add: reply_of_def)
  qed (use ch r0' in \<open>simp_all add: settled_def\<close>)
qed

theorem one_failed_fetch_nulls_one_path_witness:
  "[Key ''users'', Idx 1, Key ''userSubscribedTo'']
     \<in> fst ` set (fetches_of (route Part001 nothing_fails
                    (Parsed query_users_userSubscribedTo) store_abc)) \<and>
   distinctKeys query_users_userSubscribedTo \<and>
   (\<exists>r1. reply_of (route Part001 (fails_at [Key ''users'', Idx 1, Key ''userSubscribedTo''])
                   (Parsed query_users_userSubscribedTo) store_abc) = Reply r1 \<and>
      doc r1 = Some (Obj [(''users'',
                 Arr [Obj [(''userSubscribedTo'', Arr [Obj [(''id'', Str ''B'')]])],
                      Obj [(''userSubscribedTo'', Null)],
                      Obj [(''userSubscribedTo'', Arr [])]])]) \<and>
      filter (under [Key ''users'', Idx 1, Key ''userSubscribedTo'']) (errors r1)
        = [failure [Key ''users'', Idx 1, Key ''userSubscribedTo'']] \<and>
      filter (\<lambda>e. \<not> under [Key ''users'', Idx 1, Key ''userSubscribedTo''] e) (errors r1) = [])"
proof -
  let ?x = "[Key ''users'', Idx 1, Key ''userSubscribedTo'']"
  let ?r0 = "\<lparr>doc = Some (Obj [(''users'',
                 Arr [Obj [(''userSubscribedTo'', Arr [Obj [(''id'', Str ''B'')]])],
                      Obj [(''userSubscribedTo'', Arr [Obj [(''id'', Str ''C'')]])],
                      Obj [(''userSubscribedTo'', Arr [])]])]), errors = []\<rparr>"
  have h1: "?x \<in> fst ` set (fetches_of (route Part001 nothing_fails
                    (Parsed query_users_userSubscribedTo) store_abc))"
    by code_simp
  have h2: "distinctKeys query_users_userSubscribedTo" by code_simp
  have h3: "reply_of (route Part001 nothing_fails (Parsed query_users_userSubscribedTo) store_abc)
      = Reply ?r0"
    by code_simp
  have n: "null_at ?x (Obj [(''users'',
                 Arr [Obj [(''userSubscribedTo'', Arr [Obj [(''id'', Str ''B'')]])],
                      Obj [(''userSubscribedTo'', Arr [Obj [(''id'', Str ''C'')]])],
                      Obj [(''userSubscribedTo'', Arr [])]])])
      = Obj [(''users'',
                 Arr [Obj [(''userSubscribedTo'', Arr [Obj [(''id'', Str ''B'')]])],
                      Obj [(''userSubscribedTo'', Null)],
                      Obj [(''userSubscribedTo'', Arr [])]])]"
    by simp
  from one_failed_fetch_nulls_one_path[of ?x Part001 _ store_abc ?r0,
      OF h1[unfolded query_users_userSubscribedTo_def]
         h2[unfolded query_users_userSubscribedTo_def]
         h3[unfolded query_users_userSubscribedTo_def]] h1 h2 n
  show ?thesis by (simp add: query_users_userSubscribedTo_def)
qed

end
